theory Spec2Isabelle
  imports Complex_Main
begin

section \<open>The remote node and the SDK, as the program sees them\<close>

text \<open>
  The program (\<^verbatim>\<open>src/main.ts\<close>) talks to a Sui full node through the SDK's
  \<^verbatim>\<open>SuiClient\<close>. Every value that crosses that boundary is modelled by the fields the
  program reads: a balance entry by its \<^verbatim>\<open>coinType\<close> and \<^verbatim>\<open>totalBalance\<close>, a coin by
  its \<^verbatim>\<open>coinObjectId\<close>, a page of \<^verbatim>\<open>getCoins\<close> by \<^verbatim>\<open>data\<close>, \<^verbatim>\<open>hasNextPage\<close> and
  \<^verbatim>\<open>nextCursor\<close> (\<^verbatim>\<open>null\<close>/\<^verbatim>\<open>undefined\<close> is \<open>None\<close>), the answer of
  \<^verbatim>\<open>signAndExecuteTransaction\<close> by its \<^verbatim>\<open>digest\<close>. A thrown value is an \<open>error\<close>,
  and a call that may throw returns \<open>error + 'a\<close>.
\<close>

datatype error = Error string

record balance =
  coinType :: string
  totalBalance :: nat

record coin =
  coinObjectId :: string

record page =
  data :: "coin list"
  hasNextPage :: bool
  nextCursor :: "string option"

record tx_result =
  digest :: string

datatype client = SuiClient (url: string)

datatype keypair = Ed25519Keypair (secretKey: string)

text \<open>
  A \<^verbatim>\<open>Transaction\<close> under construction is the list of its commands. The program only
  issues \<^verbatim>\<open>mergeCoins(destination, [source])\<close>; \<^verbatim>\<open>txb.object(id)\<close> is the reference to
  the object \<open>id\<close>.
\<close>

datatype command = MergeCoins (destination: string) (sources: "string list")

type_synonym transaction = "command list"

definition new_Transaction :: transaction where
  "new_Transaction = []"

definition mergeCoins :: "transaction \<Rightarrow> string \<Rightarrow> string list \<Rightarrow> transaction" where
  "mergeCoins txb dst srcs = txb @ [MergeCoins dst srcs]"

text \<open>
  The SDK and the node behind it are a parameter of the model. The node has a state of
  type \<open>'s\<close>, which every remote call may read and change; nothing is assumed about it.
  \<open>fromSecretKey\<close> stands for \<^verbatim>\<open>Ed25519Keypair.fromSecretKey(Buffer.from(k, 'hex'))\<close>, and
  \<open>decodeSuiPrivateKey\<close> for
  \<^verbatim>\<open>Buffer.from(decodeSuiPrivateKey(k).secretKey).toString('hex')\<close> applied to the
  value of the environment variable, which may be undefined.
\<close>

record 's sdk =
  getAllBalances :: "client \<Rightarrow> string \<Rightarrow> 's \<Rightarrow> (error + balance list) \<times> 's"
  getCoins :: "client \<Rightarrow> string \<Rightarrow> string \<Rightarrow> string option \<Rightarrow> nat \<Rightarrow> 's \<Rightarrow> (error + page) \<times> 's"
  signAndExecuteTransaction :: "client \<Rightarrow> transaction \<Rightarrow> keypair \<Rightarrow> 's \<Rightarrow> (error + tx_result) \<times> 's"
  fromSecretKey :: "string \<Rightarrow> error + keypair"
  toSuiAddress :: "keypair \<Rightarrow> string"
  decodeSuiPrivateKey :: "string option \<Rightarrow> error + string"

section \<open>Observable effects\<close>

text \<open>
  One constructor of \<open>log_line\<close> for each \<^verbatim>\<open>console.log\<close> and \<^verbatim>\<open>console.error\<close> of the
  source, carrying the values that line interpolates.
\<close>

datatype log_line =
    ErrorFetchingTokens string error
  | FetchedStopping nat
  | ErrorFetchingCoinObjectIds string error
  | NoCoinsNeedMerge
  | FoundObjects nat string
  | LessThanTwoCoins
  | BatchMerged int string
  | AllMerged
  | ErrorMergingCoins error
  | NoOwnedTokens
  | FoundOwnedTokens nat string
  | TokenAddress string
  | TopLevelError error

text \<open>
  The trace lists, in order, everything the program did that can be seen from outside:
  each remote call with its arguments and its answer, each console line, each timer.
\<close>

datatype event =
    CallGetAllBalances string "error + balance list"
  | CallGetCoins string string "string option" nat "error + page"
  | CallSignAndExecute transaction keypair "error + tx_result"
  | ConsoleLog log_line
  | ConsoleError log_line
  | SetTimeout nat

record 's world =
  remote :: 's
  trace :: "event list"

definition emit :: "event \<Rightarrow> 's world \<Rightarrow> 's world" where
  "emit ev w = w\<lparr>trace := trace w @ [ev]\<rparr>"

definition console_log :: "log_line \<Rightarrow> 's world \<Rightarrow> 's world" where
  "console_log l w = emit (ConsoleLog l) w"

definition console_error :: "log_line \<Rightarrow> 's world \<Rightarrow> 's world" where
  "console_error l w = emit (ConsoleError l) w"

definition sleep :: "nat \<Rightarrow> 's world \<Rightarrow> 's world" where
  "sleep ms w = emit (SetTimeout ms) w"

definition client_getAllBalances ::
  "'s sdk \<Rightarrow> client \<Rightarrow> string \<Rightarrow> 's world \<Rightarrow> (error + balance list) \<times> 's world" where
  "client_getAllBalances sdk c owner w =
     (case getAllBalances sdk c owner (remote w) of
        (r, s) \<Rightarrow> (r, emit (CallGetAllBalances owner r) (w\<lparr>remote := s\<rparr>)))"

definition client_getCoins ::
  "'s sdk \<Rightarrow> client \<Rightarrow> string \<Rightarrow> string \<Rightarrow> string option \<Rightarrow> nat \<Rightarrow> 's world
     \<Rightarrow> (error + page) \<times> 's world" where
  "client_getCoins sdk c owner ty cursor limit w =
     (case getCoins sdk c owner ty cursor limit (remote w) of
        (r, s) \<Rightarrow> (r, emit (CallGetCoins owner ty cursor limit r) (w\<lparr>remote := s\<rparr>)))"

definition client_signAndExecuteTransaction ::
  "'s sdk \<Rightarrow> client \<Rightarrow> transaction \<Rightarrow> keypair \<Rightarrow> 's world \<Rightarrow> (error + tx_result) \<times> 's world" where
  "client_signAndExecuteTransaction sdk c txb signer w =
     (case signAndExecuteTransaction sdk c txb signer (remote w) of
        (r, s) \<Rightarrow> (r, emit (CallSignAndExecute txb signer r) (w\<lparr>remote := s\<rparr>)))"

section \<open>The program\<close>

definition SUI_RPC_URL :: string where
  "SUI_RPC_URL = ''https://fullnode.mainnet.sui.io/''"

subsection \<open>getOwnedTokens\<close>

definition getOwnedTokens :: "'s sdk \<Rightarrow> client \<Rightarrow> string \<Rightarrow> 's world \<Rightarrow> string list \<times> 's world" where
  "getOwnedTokens sdk c address w =
     (case client_getAllBalances sdk c address w of
        (Inr allBalances, w1) \<Rightarrow> (map coinType allBalances, w1)
      | (Inl e, w1) \<Rightarrow> ([], console_error (ErrorFetchingTokens address e) w1))"

subsection \<open>getAllTokenObjectIds\<close>

text \<open>
  The \<^verbatim>\<open>while (hasMore)\<close> loop, with its three variables as arguments. A throw inside it
  leaves the loop with \<open>Inl\<close>; the \<^verbatim>\<open>break\<close> at the cap and the normal exit leave it with
  \<open>Inr allCoins\<close>. The loop need not end, so its result is an option and \<open>None\<close> is a run
  that never returns.
\<close>

partial_function (option) fetch_loop ::
  "'s sdk \<Rightarrow> client \<Rightarrow> string \<Rightarrow> string \<Rightarrow> bool \<Rightarrow> string list \<Rightarrow> string option \<Rightarrow> 's world
     \<Rightarrow> ((error + string list) \<times> 's world) option" where
  "fetch_loop sdk c address tokenAddress hasMore allCoins cursor w =
     (if hasMore then
        (case client_getCoins sdk c address tokenAddress cursor 50 w of
           (Inl e, w1) \<Rightarrow> Some (Inl e, w1)
         | (Inr pg, w1) \<Rightarrow>
             (let allCoins1 = allCoins @ map coinObjectId (data pg) in
              if length allCoins1 \<ge> 5000 then
                Some (Inr allCoins1, console_log (FetchedStopping (length allCoins1)) w1)
              else
                fetch_loop sdk c address tokenAddress (hasNextPage pg) allCoins1 (nextCursor pg) w1))
      else Some (Inr allCoins, w))"

definition getAllTokenObjectIds ::
  "'s sdk \<Rightarrow> client \<Rightarrow> string \<Rightarrow> string \<Rightarrow> 's world \<Rightarrow> (string list \<times> 's world) option" where
  "getAllTokenObjectIds sdk c address tokenAddress w =
     (case fetch_loop sdk c address tokenAddress True [] None w of
        None \<Rightarrow> None
      | Some (Inr allCoins, w1) \<Rightarrow> Some (allCoins, w1)
      | Some (Inl e, w1) \<Rightarrow>
          Some ([], console_error (ErrorFetchingCoinObjectIds address e) w1))"

subsection \<open>mergeCoinObjects\<close>

text \<open>
  \<^verbatim>\<open>Array.prototype.slice(start, end)\<close> on integer arguments: a negative index counts
  from the end, and both are clamped to the array.
\<close>

definition slice :: "'a list \<Rightarrow> int \<Rightarrow> int \<Rightarrow> 'a list" where
  "slice xs start fin =
     (let len = int (length xs);
          k = (if start < 0 then max (len + start) 0 else min start len);
          final = (if fin < 0 then max (len + fin) 0 else min fin len)
      in take (nat (final - k)) (drop (nat k) xs))"

text \<open>
  The inner loop \<^verbatim>\<open>for (let j = 1; j < batch.length; j++)\<close>, which adds one
  \<^verbatim>\<open>mergeCoins(primaryCoin, [txb.object(batch[j])])\<close> to the transaction for each \<open>j\<close>.
\<close>

function merge_rest :: "string list \<Rightarrow> string \<Rightarrow> nat \<Rightarrow> transaction \<Rightarrow> transaction" where
  "merge_rest batch primaryCoin j txb =
     (if j < length batch
      then merge_rest batch primaryCoin (j + 1) (mergeCoins txb primaryCoin [batch ! j])
      else txb)"
  by pat_completeness auto
termination
  by (relation "measure (\<lambda>(batch, primaryCoin, j, txb). length batch - j)") auto

declare merge_rest.simps [simp del]

text \<open>
  The transaction of one batch: lines 84 to 92. It is only built for a batch of two or
  more, so \<^verbatim>\<open>batch[0]\<close> exists. \<^verbatim>\<open>txb.object\<close> and \<^verbatim>\<open>txb.mergeCoins\<close> only record an input
  and a command, so this step is a pure function; the transaction is resolved and
  serialised inside \<^verbatim>\<open>signAndExecuteTransaction\<close>, whose failure is modelled.
\<close>

definition build_merge :: "string list \<Rightarrow> transaction" where
  "build_merge batch = merge_rest batch (batch ! 0) 1 new_Transaction"

text \<open>
  The batching loop \<^verbatim>\<open>for (let i = 0; i < tokenObjectIds.length; i += batchSize)\<close>.
  \<open>batchSize\<close> is any integer, so the loop need not end: \<open>None\<close> is a run that never
  returns. A throw of \<^verbatim>\<open>signAndExecuteTransaction\<close> leaves the loop with \<open>Inl\<close>. The
  batch number of the log line is \<^verbatim>\<open>i/batchSize + 1\<close>; \<open>i\<close> is a multiple of \<open>batchSize\<close>
  wherever the line is reached, so the division is exact.
\<close>

partial_function (option) merge_loop ::
  "'s sdk \<Rightarrow> client \<Rightarrow> keypair \<Rightarrow> string list \<Rightarrow> int \<Rightarrow> int \<Rightarrow> 's world
     \<Rightarrow> ((error + unit) \<times> 's world) option" where
  "merge_loop sdk c keyPair tokenObjectIds batchSize i w =
     (if i < int (length tokenObjectIds) then
        (let batch = slice tokenObjectIds i (min (i + batchSize) (int (length tokenObjectIds))) in
         if length batch > 1 then
           (case client_signAndExecuteTransaction sdk c (build_merge batch) keyPair w of
              (Inl e, w1) \<Rightarrow> Some (Inl e, w1)
            | (Inr result, w1) \<Rightarrow>
                (let w2 = console_log (BatchMerged (i div batchSize + 1) (digest result)) w1;
                     w3 = (if i + batchSize < int (length tokenObjectIds)
                           then sleep 1000 w2 else w2)
                 in merge_loop sdk c keyPair tokenObjectIds batchSize (i + batchSize) w3))
         else merge_loop sdk c keyPair tokenObjectIds batchSize (i + batchSize) w)
      else Some (Inr (), w))"

text \<open>The body of the \<^verbatim>\<open>try\<close> block of \<^verbatim>\<open>mergeCoinObjects\<close>, lines 60 to 112.\<close>

definition merge_try ::
  "'s sdk \<Rightarrow> string \<Rightarrow> string \<Rightarrow> int \<Rightarrow> string \<Rightarrow> 's world \<Rightarrow> ((error + unit) \<times> 's world) option" where
  "merge_try sdk privateKey tokenAddress batchSize rpcUrl w =
     (let c = SuiClient rpcUrl in
      case fromSecretKey sdk privateKey of
        Inl e \<Rightarrow> Some (Inl e, w)
      | Inr keyPair \<Rightarrow>
          (let address = toSuiAddress sdk keyPair in
           case getAllTokenObjectIds sdk c address tokenAddress w of
             None \<Rightarrow> None
           | Some (tokenObjectIds, w1) \<Rightarrow>
               if length tokenObjectIds \<le> 1 then
                 Some (Inr (), console_log NoCoinsNeedMerge w1)
               else
                 (let w2 = console_log (FoundObjects (length tokenObjectIds) tokenAddress) w1 in
                  if length tokenObjectIds \<le> 1 then
                    Some (Inr (), console_log LessThanTwoCoins w2)
                  else
                    (case merge_loop sdk c keyPair tokenObjectIds batchSize 0 w2 of
                       None \<Rightarrow> None
                     | Some (Inl e, w3) \<Rightarrow> Some (Inl e, w3)
                     | Some (Inr u, w3) \<Rightarrow> Some (Inr (), console_log AllMerged w3)))))"

text \<open>
  The whole function: the \<^verbatim>\<open>catch\<close> logs the error and throws it again. The default
  values of \<^verbatim>\<open>batchSize\<close> (500) and \<^verbatim>\<open>rpcUrl\<close> (\<open>SUI_RPC_URL\<close>) are passed by the
  caller.
\<close>

definition mergeCoinObjects ::
  "'s sdk \<Rightarrow> string \<Rightarrow> string \<Rightarrow> int \<Rightarrow> string \<Rightarrow> 's world \<Rightarrow> ((error + unit) \<times> 's world) option" where
  "mergeCoinObjects sdk privateKey tokenAddress batchSize rpcUrl w =
     (case merge_try sdk privateKey tokenAddress batchSize rpcUrl w of
        None \<Rightarrow> None
      | Some (Inl e, w1) \<Rightarrow> Some (Inl e, console_error (ErrorMergingCoins e) w1)
      | Some (Inr u, w1) \<Rightarrow> Some (Inr u, w1))"

subsection \<open>main and the top level\<close>

text \<open>
  The loop \<^verbatim>\<open>for (const token of ownedTokens)\<close>: an error of \<^verbatim>\<open>mergeCoinObjects\<close> is not
  caught here, so it ends the loop.
\<close>

fun main_loop ::
  "'s sdk \<Rightarrow> string \<Rightarrow> string list \<Rightarrow> 's world \<Rightarrow> ((error + unit) \<times> 's world) option" where
  "main_loop sdk privateKey [] w = Some (Inr (), w)"
| "main_loop sdk privateKey (token # rest) w =
     (case mergeCoinObjects sdk privateKey token 500 SUI_RPC_URL
             (console_log (TokenAddress token) w) of
        None \<Rightarrow> None
      | Some (Inl e, w1) \<Rightarrow> Some (Inl e, w1)
      | Some (Inr u, w1) \<Rightarrow> main_loop sdk privateKey rest w1)"

text \<open>
  \<open>env\<close> is \<^verbatim>\<open>process.env\<close> after \<^verbatim>\<open>dotenv.config()\<close>. The result is the state in which
  the promise of \<^verbatim>\<open>main()\<close> settles: \<open>Inl e\<close> is rejected with \<open>e\<close>, \<open>Inr ()\<close> is
  fulfilled.
\<close>

definition main ::
  "'s sdk \<Rightarrow> (string \<Rightarrow> string option) \<Rightarrow> 's world \<Rightarrow> ((error + unit) \<times> 's world) option" where
  "main sdk env w =
     (let suiPrivateKey = env ''MERGE_COIN_PRIVATE_KEY'' in
      case decodeSuiPrivateKey sdk suiPrivateKey of
        Inl e \<Rightarrow> Some (Inl e, w)
      | Inr privateKey \<Rightarrow>
          (case fromSecretKey sdk privateKey of
             Inl e \<Rightarrow> Some (Inl e, w)
           | Inr keyPair \<Rightarrow>
               (let userAddress = toSuiAddress sdk keyPair;
                    c = SuiClient SUI_RPC_URL
                in case getOwnedTokens sdk c userAddress w of
                     (ownedTokens, w1) \<Rightarrow>
                       if length ownedTokens = 0 then
                         Some (Inr (), console_log NoOwnedTokens w1)
                       else
                         main_loop sdk privateKey ownedTokens
                           (console_log (FoundOwnedTokens (length ownedTokens) userAddress) w1))))"

text \<open>
  The last line, \<^verbatim>\<open>main().catch(console.error)\<close>. \<^verbatim>\<open>catch\<close> gives a new promise: when
  \<^verbatim>\<open>main()\<close> is rejected the handler runs, and the new promise is fulfilled with what the
  handler returns; \<^verbatim>\<open>console.error\<close> returns and does not throw. The process then ends
  when nothing is left to run. Node's exit code is 0 unless a rejection was left
  unhandled, in which case it is 1; nothing in the program sets it.
\<close>

definition top_level ::
  "'s sdk \<Rightarrow> (string \<Rightarrow> string option) \<Rightarrow> 's world \<Rightarrow> ((error + unit) \<times> 's world) option" where
  "top_level sdk env w =
     (case main sdk env w of
        None \<Rightarrow> None
      | Some (Inl e, w1) \<Rightarrow> Some (Inr (), console_error (TopLevelError e) w1)
      | Some (Inr u, w1) \<Rightarrow> Some (Inr u, w1))"

definition exit_code :: "error + unit \<Rightarrow> nat" where
  "exit_code settled = (case settled of Inl e \<Rightarrow> 1 | Inr u \<Rightarrow> 0)"

section \<open>Vocabulary of the properties\<close>

text \<open>
  The definitions of this section are not part of the program. They name what the
  properties below talk about: what the node answers, and what a trace shows.
\<close>

subsection \<open>The pagination dialogue\<close>

text \<open>
  \<open>nth_response \<dots> cursor s k\<close> is the node's answer to request number \<open>k\<close> (from 0) of a
  client that starts at \<open>cursor\<close> in node state \<open>s\<close>, asks for 50 items each time and
  follows the cursors it is given, as \<open>fetch_loop\<close> does. After a failed request every
  later answer is that failure.
\<close>

fun nth_response ::
  "'s sdk \<Rightarrow> client \<Rightarrow> string \<Rightarrow> string \<Rightarrow> string option \<Rightarrow> 's \<Rightarrow> nat \<Rightarrow> error + page" where
  "nth_response sdk c address tokenAddress cursor s 0 =
     fst (getCoins sdk c address tokenAddress cursor 50 s)"
| "nth_response sdk c address tokenAddress cursor s (Suc k) =
     (case getCoins sdk c address tokenAddress cursor 50 s of
        (Inl e, s1) \<Rightarrow> Inl e
      | (Inr pg, s1) \<Rightarrow> nth_response sdk c address tokenAddress (nextCursor pg) s1 k)"

subsection \<open>Reading a trace\<close>

text \<open>The events of a run that started in \<open>w\<close> and ended in \<open>w'\<close>.\<close>

definition new_events :: "'s world \<Rightarrow> 's world \<Rightarrow> event list" where
  "new_events w w' = drop (length (trace w)) (trace w')"

text \<open>The pages that \<^verbatim>\<open>getCoins\<close> returned, in order, and the object ids they hold.\<close>

fun received :: "event \<Rightarrow> page list" where
  "received (CallGetCoins a t cur lmt (Inr pg)) = [pg]"
| "received ev = []"

definition pages_of :: "event list \<Rightarrow> page list" where
  "pages_of evs = concat (map received evs)"

definition ids_of :: "page list \<Rightarrow> string list" where
  "ids_of pgs = concat (map (\<lambda>pg. map coinObjectId (data pg)) pgs)"

text \<open>A \<^verbatim>\<open>getCoins\<close> call that threw.\<close>

fun failed_call :: "event \<Rightarrow> bool" where
  "failed_call (CallGetCoins a t cur lmt (Inl e)) = True"
| "failed_call ev = False"

text \<open>
  The errors with which calls of \<^verbatim>\<open>signAndExecuteTransaction\<close> failed, in order. These are
  the failures of the sign and submit step only; a failure of the listing step is a
  \<open>failed_call\<close>.
\<close>

fun submit_error :: "event \<Rightarrow> error list" where
  "submit_error (CallSignAndExecute txb signer (Inl e)) = [e]"
| "submit_error ev = []"

definition submit_errors :: "event list \<Rightarrow> error list" where
  "submit_errors evs = concat (map submit_error evs)"

text \<open>
  The submissions and the timers of a trace, in order: \<open>Submit txb\<close> for each call of
  \<^verbatim>\<open>signAndExecuteTransaction\<close>, \<open>Pause ms\<close> for each \<^verbatim>\<open>setTimeout\<close>.
\<close>

datatype action = Submit transaction | Pause nat

fun action_of :: "event \<Rightarrow> action list" where
  "action_of (CallSignAndExecute txb signer r) = [Submit txb]"
| "action_of (SetTimeout ms) = [Pause ms]"
| "action_of ev = []"

definition actions :: "event list \<Rightarrow> action list" where
  "actions evs = concat (map action_of evs)"

fun submit_of :: "action \<Rightarrow> transaction list" where
  "submit_of (Submit txb) = [txb]"
| "submit_of (Pause ms) = []"

fun pause_of :: "action \<Rightarrow> nat list" where
  "pause_of (Submit txb) = []"
| "pause_of (Pause ms) = [ms]"

definition submissions :: "action list \<Rightarrow> transaction list" where
  "submissions as = concat (map submit_of as)"

definition pauses :: "action list \<Rightarrow> nat list" where
  "pauses as = concat (map pause_of as)"

subsection \<open>What a run of the pagination loop leaves behind\<close>

text \<open>
  \<open>fetch_post allCoins evs res\<close> relates the events \<open>evs\<close> of a run of the loop that was
  entered with \<open>allCoins\<close> to its outcome. A run that throws ends with the failed call. A
  run that returns \<open>r\<close> had no failed call and received at least one page; \<open>r\<close> is
  \<open>allCoins\<close> followed by the ids of all pages received; every page but the last said
  \<^verbatim>\<open>hasNextPage\<close> and left the total under 5000; the last page either brought the total
  to 5000 or more, or said there is no next page.
\<close>

definition fetch_post :: "string list \<Rightarrow> event list \<Rightarrow> error + string list \<Rightarrow> bool" where
  "fetch_post acc evs res =
     (case res of
        Inl e \<Rightarrow> evs \<noteq> [] \<and> failed_call (last evs)
      | Inr r \<Rightarrow>
          \<not> list_ex failed_call evs \<and> pages_of evs \<noteq> [] \<and>
          r = acc @ ids_of (pages_of evs) \<and>
          (\<forall>p \<in> set (butlast (pages_of evs)). hasNextPage p) \<and>
          length (acc @ ids_of (butlast (pages_of evs))) < 5000 \<and>
          (5000 \<le> length r \<or> \<not> hasNextPage (last (pages_of evs))))"

subsection \<open>Batches and the plan of a merge run, in the words of the specification\<close>

text \<open>
  The partition of a sequence into contiguous batches of at most \<open>B\<close> elements, in order,
  the last one possibly smaller. For \<open>B = 0\<close> there is no such partition and the result
  is empty.
\<close>

function spec_batches :: "nat \<Rightarrow> 'a list \<Rightarrow> 'a list list" where
  "spec_batches B xs =
     (if B = 0 \<or> xs = [] then [] else take B xs # spec_batches B (drop B xs))"
  by pat_completeness auto
termination
  by (relation "measure (\<lambda>(B, xs). length xs)") auto

declare spec_batches.simps [simp del]

text \<open>The transaction that folds every object of a batch but the first into the first.\<close>

definition merge_into_first :: "string list \<Rightarrow> transaction" where
  "merge_into_first b = map (\<lambda>x. MergeCoins (hd b) [x]) (tl b)"

text \<open>
  What a merge run does with a list of batches: each batch of two or more is submitted,
  and a submission is followed by a pause of one second exactly when a further batch
  remains; a batch of fewer than two is passed over.
\<close>

fun plan :: "string list list \<Rightarrow> action list" where
  "plan [] = []"
| "plan (b # bs) =
     (if 1 < length b
      then Submit (merge_into_first b) # (if bs \<noteq> [] then [Pause 1000] else [])
      else []) @ plan bs"

text \<open>A node on which \<^verbatim>\<open>signAndExecuteTransaction\<close> never throws.\<close>

definition always_executes :: "'s sdk \<Rightarrow> bool" where
  "always_executes sdk \<longleftrightarrow>
     (\<forall>c txb signer s. \<exists>res s'. signAndExecuteTransaction sdk c txb signer s = (Inr res, s'))"

text \<open>
  \<open>merge_post evs res\<close> relates the events of a run of the batching loop to its outcome:
  a run that throws \<open>e\<close> had exactly one failed submission, its last event, and that
  submission threw \<open>e\<close>; a run that returns had none. The loop makes no \<^verbatim>\<open>getCoins\<close> call.
\<close>

definition merge_post :: "event list \<Rightarrow> error + unit \<Rightarrow> bool" where
  "merge_post evs res =
     ((case res of
         Inl e \<Rightarrow> submit_errors evs = [e] \<and> evs \<noteq> [] \<and> submit_error (last evs) = [e]
       | Inr u \<Rightarrow> submit_errors evs = []) \<and>
      \<not> list_ex failed_call evs)"

text \<open>
  \<open>call_post sdk pk evs res\<close> relates the events of a call of \<^verbatim>\<open>mergeCoinObjects\<close> with
  the key \<open>pk\<close> to its outcome: a call that fails with \<open>e\<close> ends by logging \<open>e\<close>, and
  \<open>e\<close> comes from the key derivation, no submission having thrown, or from the one
  submission that threw, and no \<^verbatim>\<open>getCoins\<close> call of the call has failed; a call that
  returns had no submission that threw.
\<close>

definition call_post :: "'s sdk \<Rightarrow> string \<Rightarrow> event list \<Rightarrow> error + unit \<Rightarrow> bool" where
  "call_post sdk pk evs res =
     (case res of
        Inl e \<Rightarrow> evs \<noteq> [] \<and> last evs = ConsoleError (ErrorMergingCoins e) \<and>
                 (fromSecretKey sdk pk = Inl e \<and> submit_errors evs = [] \<or> submit_errors evs = [e]) \<and>
                 \<not> list_ex failed_call evs
      | Inr u \<Rightarrow> submit_errors evs = [])"

section \<open>Example nodes\<close>

text \<open>
  A scripted node for the concrete runs below. Its state counts the remote calls made so
  far; call number \<open>s\<close> of \<^verbatim>\<open>getCoins\<close> is answered by \<open>pages s\<close> and call number \<open>s\<close>
  of \<^verbatim>\<open>signAndExecuteTransaction\<close> by \<open>execs s\<close>, whatever the arguments;
  \<^verbatim>\<open>getAllBalances\<close> always answers \<open>bals\<close>.
\<close>

definition script_sdk ::
  "(error + balance list) \<Rightarrow> (nat \<Rightarrow> error + page) \<Rightarrow> (nat \<Rightarrow> error + tx_result) \<Rightarrow> nat sdk" where
  "script_sdk bals pages execs =
     \<lparr> getAllBalances = (\<lambda>c owner s. (bals, Suc s)),
       getCoins = (\<lambda>c owner ty cursor lmt s. (pages s, Suc s)),
       signAndExecuteTransaction = (\<lambda>c txb signer s. (execs s, Suc s)),
       fromSecretKey = (\<lambda>k. Inr (Ed25519Keypair k)),
       toSuiAddress = (\<lambda>kp. ''0x'' @ secretKey kp),
       decodeSuiPrivateKey = (\<lambda>v. case v of None \<Rightarrow> Inl (Error ''no key'') | Some k \<Rightarrow> Inr k) \<rparr>"

definition w0 :: "nat world" where
  "w0 = \<lparr> remote = 0, trace = [] \<rparr>"

definition refuse :: "nat \<Rightarrow> error + 'a" where
  "refuse k = Inl (Error ''unavailable'')"

definition coins :: "string list \<Rightarrow> coin list" where
  "coins xs = map (\<lambda>x. \<lparr> coinObjectId = x \<rparr>) xs"

text \<open>
  An answer that lists one type twice and one type with balance zero: the result repeats
  the first and contains the second.
\<close>

definition balances_demo :: "balance list" where
  "balances_demo =
     [\<lparr> coinType = ''0x2::sui::SUI'', totalBalance = 7 \<rparr>,
      \<lparr> coinType = ''0xa::navx::NAVX'', totalBalance = 0 \<rparr>,
      \<lparr> coinType = ''0x2::sui::SUI'', totalBalance = 7 \<rparr>]"

text \<open>A first page of two coins that announces a next page, then a failure.\<close>

definition failing_pages :: "nat \<Rightarrow> error + page" where
  "failing_pages k =
     (if k = 0
      then Inr \<lparr> data = coins [''0xc1'', ''0xc2''], hasNextPage = True, nextCursor = Some ''0xc2'' \<rparr>
      else Inl (Error ''timeout''))"

text \<open>
  Three pages: 49 coins and a next page; no coin and a next page; two coins and no next
  page.
\<close>

definition page49 :: page where
  "page49 = \<lparr> data = coins (replicate 49 ''0xc''), hasNextPage = True, nextCursor = Some ''0xc'' \<rparr>"

definition empty_page :: page where
  "empty_page = \<lparr> data = [], hasNextPage = True, nextCursor = None \<rparr>"

definition last_page :: page where
  "last_page = \<lparr> data = coins [''0xc1'', ''0xc2''], hasNextPage = False, nextCursor = None \<rparr>"

text \<open>
  A page of three coins that announces no next page, a node that executes every
  transaction, and the world after the Object Lister has fetched that page for the
  address of the key \<open>''6b''\<close>.
\<close>

definition three_coins :: page where
  "three_coins = \<lparr> data = coins [''0xc1'', ''0xc2'', ''0xc3''], hasNextPage = False, nextCursor = None \<rparr>"

definition accept :: "nat \<Rightarrow> error + tx_result" where
  "accept k = Inr \<lparr> digest = ''digest'' \<rparr>"

definition demo_sdk :: "nat sdk" where
  "demo_sdk = script_sdk (Inr []) (\<lambda>k. Inr three_coins) accept"

definition listed :: "nat world" where
  "listed = \<lparr> remote = 1, trace = [CallGetCoins ''0x6b'' ''0x2::sui::SUI'' None 50 (Inr three_coins)] \<rparr>"

text \<open>
  A node that lists two token types, serves the page of three coins and rejects every
  transaction; and an environment that holds the key \<open>''6b''\<close>.
\<close>

definition two_tokens :: "balance list" where
  "two_tokens =
     [\<lparr> coinType = ''0x2::sui::SUI'', totalBalance = 7 \<rparr>,
      \<lparr> coinType = ''0xa::navx::NAVX'', totalBalance = 3 \<rparr>]"

definition rejecting_sdk :: "nat sdk" where
  "rejecting_sdk = script_sdk (Inr two_tokens) (\<lambda>k. Inr three_coins) refuse"

definition env0 :: "string \<Rightarrow> string option" where
  "env0 name = (if name = ''MERGE_COIN_PRIVATE_KEY'' then Some ''6b'' else None)"

text \<open>
  A node that serves 24 pages of 50 coins, the last of which announces no next page, and
  executes every transaction; and a node on which no key is valid.
\<close>

definition pages_1200 :: "nat \<Rightarrow> error + page" where
  "pages_1200 k =
     Inr \<lparr> data = coins (replicate 50 ''0xc''), hasNextPage = (k < 23), nextCursor = Some ''0xc'' \<rparr>"

definition big_sdk :: "nat sdk" where
  "big_sdk = script_sdk (Inr []) pages_1200 accept"

definition keyless_sdk :: "nat sdk" where
  "keyless_sdk = demo_sdk \<lparr> fromSecretKey := (\<lambda>k. Inl (Error ''bad key'')) \<rparr>"

section \<open>Basic facts\<close>

subsection \<open>The pagination loop\<close>

lemma fetch_loop_False:
  "fetch_loop sdk c a t False acc cur w = Some (Inr acc, w)"
  by (subst fetch_loop.simps) simp

lemma fetch_loop_Inl:
  assumes "getCoins sdk c a t cur 50 (remote w) = (Inl e, s)"
  shows "fetch_loop sdk c a t True acc cur w =
           Some (Inl e, emit (CallGetCoins a t cur 50 (Inl e)) (w\<lparr>remote := s\<rparr>))"
  using assms by (subst fetch_loop.simps) (simp add: client_getCoins_def)

lemma fetch_loop_Inr:
  assumes "getCoins sdk c a t cur 50 (remote w) = (Inr pg, s)"
  shows "fetch_loop sdk c a t True acc cur w =
           (let w1 = emit (CallGetCoins a t cur 50 (Inr pg)) (w\<lparr>remote := s\<rparr>);
                acc1 = acc @ map coinObjectId (data pg)
            in if 5000 \<le> length acc1
               then Some (Inr acc1, console_log (FetchedStopping (length acc1)) w1)
               else fetch_loop sdk c a t (hasNextPage pg) acc1 (nextCursor pg) w1)"
  using assms by (subst fetch_loop.simps) (simp add: client_getCoins_def Let_def)

lemma remote_emit [simp]: "remote (emit ev w) = remote w"
  by (simp add: emit_def)

lemma trace_emit [simp]: "trace (emit ev w) = trace w @ [ev]"
  by (simp add: emit_def)

lemma fetch_terminates_progress:
  assumes "\<And>k pg. nth_response sdk c a t cur (remote w) k = Inr pg \<Longrightarrow> hasNextPage pg \<Longrightarrow> data pg \<noteq> []"
  shows "\<exists>r. fetch_loop sdk c a t hm acc cur w = Some r"
  using assms
proof (induction "5000 - length acc" arbitrary: acc cur w hm rule: less_induct)
  case less
  show ?case
  proof (cases hm)
    case False
    then show ?thesis by (simp add: fetch_loop_False)
  next
    case True
    obtain r s where g: "getCoins sdk c a t cur 50 (remote w) = (r, s)"
      by (cases "getCoins sdk c a t cur 50 (remote w)")
    show ?thesis
    proof (cases r)
      case (Inl e)
      with g True show ?thesis by (simp add: fetch_loop_Inl)
    next
      case (Inr pg)
      let ?acc1 = "acc @ map coinObjectId (data pg)"
      let ?w1 = "emit (CallGetCoins a t cur 50 (Inr pg)) (w\<lparr>remote := s\<rparr>)"
      show ?thesis
      proof (cases "5000 \<le> length ?acc1")
        case True
        with g Inr \<open>hm\<close> show ?thesis by (simp add: fetch_loop_Inr Let_def)
      next
        case small: False
        show ?thesis
        proof (cases "hasNextPage pg")
          case False
          with g Inr \<open>hm\<close> small show ?thesis
            by (simp add: fetch_loop_Inr Let_def fetch_loop_False)
        next
          case hn: True
          have "nth_response sdk c a t cur (remote w) 0 = Inr pg" using g Inr by simp
          then have ne: "data pg \<noteq> []" using less.prems hn by blast
          have shift: "\<And>k. nth_response sdk c a t (nextCursor pg) (remote ?w1) k
                         = nth_response sdk c a t cur (remote w) (Suc k)"
            using g Inr by simp
          have "\<exists>r. fetch_loop sdk c a t (hasNextPage pg) ?acc1 (nextCursor pg) ?w1 = Some r"
          proof (rule less.hyps)
            show "5000 - length ?acc1 < 5000 - length acc" using ne small by (cases "data pg") auto
          next
            fix k pg'
            assume "nth_response sdk c a t (nextCursor pg) (remote ?w1) k = Inr pg'" "hasNextPage pg'"
            then show "data pg' \<noteq> []" using less.prems[of "Suc k" pg'] shift by simp
          qed
          with g Inr \<open>hm\<close> small show ?thesis by (simp add: fetch_loop_Inr Let_def)
        qed
      qed
    qed
  qed
qed

lemma fetch_terminates_last_page:
  assumes "nth_response sdk c a t cur (remote w) k = Inr pg" "\<not> hasNextPage pg"
  shows "\<exists>r. fetch_loop sdk c a t hm acc cur w = Some r"
  using assms
proof (induction k arbitrary: acc cur w hm)
  case 0
  show ?case
  proof (cases hm)
    case False
    then show ?thesis by (simp add: fetch_loop_False)
  next
    case True
    obtain s where "getCoins sdk c a t cur 50 (remote w) = (Inr pg, s)"
      using "0.prems"(1) by (cases "getCoins sdk c a t cur 50 (remote w)") simp
    with True "0.prems"(2) show ?thesis
      by (simp add: fetch_loop_Inr Let_def fetch_loop_False)
  qed
next
  case (Suc k)
  show ?case
  proof (cases hm)
    case False
    then show ?thesis by (simp add: fetch_loop_False)
  next
    case True
    obtain r s where g: "getCoins sdk c a t cur 50 (remote w) = (r, s)"
      by (cases "getCoins sdk c a t cur 50 (remote w)")
    show ?thesis
    proof (cases r)
      case (Inl e)
      with g True show ?thesis by (simp add: fetch_loop_Inl)
    next
      case (Inr pg0)
      let ?w1 = "emit (CallGetCoins a t cur 50 (Inr pg0)) (w\<lparr>remote := s\<rparr>)"
      have "nth_response sdk c a t (nextCursor pg0) (remote ?w1) k = Inr pg"
        using Suc.prems(1) g Inr by simp
      from Suc.IH[OF this Suc.prems(2)]
      have "\<exists>r. fetch_loop sdk c a t (hasNextPage pg0) (acc @ map coinObjectId (data pg0))
                   (nextCursor pg0) ?w1 = Some r" .
      with g Inr True show ?thesis by (simp add: fetch_loop_Inr Let_def)
    qed
  qed
qed

lemma fetch_diverges:
  assumes run: "fetch_loop sdk c a t hm acc cur w = Some y"
    and "hm" "length acc < 5000"
    and "\<And>k. \<exists>pg. nth_response sdk c a t cur (remote w) k = Inr pg \<and> hasNextPage pg \<and> data pg = []"
  shows False
  using run assms(2-)
proof (induction sdk c a t hm acc cur w y rule: fetch_loop.raw_induct[rotated 1, consumes 1])
  case (1 fetch_loop sdk c a t hm acc cur w y)
  obtain pg where r0: "nth_response sdk c a t cur (remote w) 0 = Inr pg"
    and hn: "hasNextPage pg" and em: "data pg = []"
    using "1.prems"(3) by blast
  obtain s where g: "getCoins sdk c a t cur 50 (remote w) = (Inr pg, s)"
    using r0 by (cases "getCoins sdk c a t cur 50 (remote w)") simp
  let ?w1 = "emit (CallGetCoins a t cur 50 (Inr pg)) (w\<lparr>remote := s\<rparr>)"
  have rec: "fetch_loop sdk c a t True acc (nextCursor pg) ?w1 = Some y"
    using "1.hyps" "1.prems"(1,2) g hn em
    by (simp add: client_getCoins_def Let_def)
  have "\<And>k. \<exists>pg'. nth_response sdk c a t (nextCursor pg) (remote ?w1) k = Inr pg'
            \<and> hasNextPage pg' \<and> data pg' = []"
    using "1.prems"(3)[of "Suc _"] g by simp
  with "1.IH"[OF rec] "1.prems"(2) show False by simp
qed

lemma pages_of_simps [simp]:
  "pages_of [] = []"
  "pages_of (ev # evs) = received ev @ pages_of evs"
  "pages_of (evs @ evs') = pages_of evs @ pages_of evs'"
  by (simp_all add: pages_of_def)

lemma ids_of_simps [simp]:
  "ids_of [] = []"
  "ids_of (pg # pgs) = map coinObjectId (data pg) @ ids_of pgs"
  by (simp_all add: ids_of_def)

lemma fetch_loop_run:
  assumes "fetch_loop sdk c a t hm acc cur w = Some y" "length acc < 5000"
  shows "\<exists>evs. trace (snd y) = trace w @ evs \<and>
           (if hm then fetch_post acc evs (fst y) else fst y = Inr acc \<and> evs = [])"
  using assms
proof (induction sdk c a t hm acc cur w y
        rule: fetch_loop.raw_induct[rotated 1, consumes 1])
  case (1 fetch_loop sdk c a t hm acc cur w y)
  note IH = "1.IH" and eq = "1.hyps" and small = "1.prems"
  obtain res w' where y: "y = (res, w')" by (cases y)
  have "\<exists>evs. trace w' = trace w @ evs \<and>
           (if hm then fetch_post acc evs res else res = Inr acc \<and> evs = [])"
  proof (cases hm)
    case False
    with eq y show ?thesis by simp
  next
    case True
    obtain r0 s where g: "getCoins sdk c a t cur 50 (remote w) = (r0, s)"
      by (cases "getCoins sdk c a t cur 50 (remote w)")
    show ?thesis
    proof (cases r0)
      case (Inl e)
      with eq y True g have "res = Inl e" "w' = emit (CallGetCoins a t cur 50 (Inl e)) (w\<lparr>remote := s\<rparr>)"
        by (simp_all add: client_getCoins_def)
      then show ?thesis using True by (simp add: fetch_post_def)
    next
      case (Inr pg)
      let ?acc1 = "acc @ map coinObjectId (data pg)"
      let ?ev = "CallGetCoins a t cur 50 (Inr pg)"
      let ?w1 = "emit ?ev (w\<lparr>remote := s\<rparr>)"
      show ?thesis
      proof (cases "5000 \<le> length ?acc1")
        case cap: True
        with eq y True g Inr have "res = Inr ?acc1"
          "w' = console_log (FetchedStopping (length ?acc1)) ?w1"
          by (simp_all add: client_getCoins_def Let_def)
        then have "trace w' = trace w @ [?ev, ConsoleLog (FetchedStopping (length ?acc1))]"
          by (simp add: console_log_def)
        moreover have "fetch_post acc [?ev, ConsoleLog (FetchedStopping (length ?acc1))] res"
          using cap small \<open>res = Inr ?acc1\<close> by (simp add: fetch_post_def)
        ultimately show ?thesis using True by auto
      next
        case nocap: False
        with eq y True g Inr
        have rec: "fetch_loop sdk c a t (hasNextPage pg) ?acc1 (nextCursor pg) ?w1 = Some (res, w')"
          by (simp add: client_getCoins_def Let_def)
        from nocap have small1: "length ?acc1 < 5000" by simp
        from IH[OF rec small1] have "\<exists>evs. trace w' = trace ?w1 @ evs \<and>
            (if hasNextPage pg then fetch_post ?acc1 evs res else res = Inr ?acc1 \<and> evs = [])"
          by (cases "hasNextPage pg") auto
        then obtain evs' where
          tr: "trace w' = trace ?w1 @ evs'" and
          post: "if hasNextPage pg then fetch_post ?acc1 evs' res else res = Inr ?acc1 \<and> evs' = []"
          by blast
        have tr': "trace w' = trace w @ (?ev # evs')" using tr by simp
        have "fetch_post acc (?ev # evs') res"
        proof (cases "hasNextPage pg")
          case False
          with post small1 show ?thesis by (simp add: fetch_post_def)
        next
          case hn: True
          with post have fp: "fetch_post ?acc1 evs' res" by simp
          show ?thesis
          proof (cases res)
            case (Inl e)
            with fp show ?thesis by (simp add: fetch_post_def)
          next
            case (Inr r)
            with fp have ne: "pages_of evs' \<noteq> []" by (simp add: fetch_post_def)
            then have bl: "butlast (pg # pages_of evs') = pg # butlast (pages_of evs')" by simp
            show ?thesis using fp Inr hn ne
              by (auto simp add: fetch_post_def)
          qed
        qed
        with tr' True show ?thesis by auto
      qed
    qed
  qed
  with y show ?case by (cases hm) auto
qed

subsection \<open>Batches, plans and the batching loop\<close>

lemma merge_rest_eq:
  "merge_rest batch p j txb = txb @ map (\<lambda>x. MergeCoins p [x]) (drop j batch)"
proof (induction batch p j txb rule: merge_rest.induct)
  case (1 batch p j txb)
  show ?case
  proof (cases "j < length batch")
    case True
    then have "drop j batch = batch ! j # drop (Suc j) batch"
      by (simp add: Cons_nth_drop_Suc)
    with True "1.IH" show ?thesis
      by (subst merge_rest.simps) (simp add: mergeCoins_def)
  next
    case False
    then show ?thesis by (subst merge_rest.simps) simp
  qed
qed

lemma build_merge_eq:
  "b \<noteq> [] \<Longrightarrow> build_merge b = merge_into_first b"
  by (simp add: build_merge_def merge_rest_eq new_Transaction_def merge_into_first_def
      hd_conv_nth drop_Suc)

lemma spec_batches_Nil [simp]: "spec_batches B [] = []"
  by (subst spec_batches.simps) simp

lemma spec_batches_step:
  "0 < B \<Longrightarrow> xs \<noteq> [] \<Longrightarrow> spec_batches B xs = take B xs # spec_batches B (drop B xs)"
  by (subst spec_batches.simps) simp

lemma spec_batches_eq_Nil: "0 < B \<Longrightarrow> spec_batches B xs = [] \<longleftrightarrow> xs = []"
  by (subst spec_batches.simps) simp

lemma actions_simps [simp]:
  "actions [] = []"
  "actions (ev # evs) = action_of ev @ actions evs"
  "actions (evs @ evs') = actions evs @ actions evs'"
  by (simp_all add: actions_def)

lemma slice_take_drop:
  assumes "i < length xs"
  shows "slice xs (int i) (min (int i + int B) (int (length xs))) = take B (drop i xs)"
proof -
  have "nat (min (int i + int B) (int (length xs)) - int i) = min B (length xs - i)"
    using assms by arith
  moreover have "min (int i) (int (length xs)) = int i" "0 \<le> min (int i + int B) (int (length xs))"
    "min (min (int i + int B) (int (length xs))) (int (length xs)) = min (int i + int B) (int (length xs))"
    using assms by simp_all
  moreover have "take (min B (length xs - i)) (drop i xs) = take B (drop i xs)"
    by (cases "B \<le> length xs - i") (simp_all add: min_def)
  ultimately show ?thesis by (simp add: slice_def Let_def del: min.absorb1 min.absorb2 min.absorb3 min.absorb4)
qed

lemma merge_loop_done:
  "\<not> i < int (length ids) \<Longrightarrow> merge_loop sdk c kp ids B i w = Some (Inr (), w)"
  by (subst merge_loop.simps) simp

lemma merge_loop_skip:
  assumes "i < int (length ids)"
    "\<not> 1 < length (slice ids i (min (i + B) (int (length ids))))"
  shows "merge_loop sdk c kp ids B i w = merge_loop sdk c kp ids B (i + B) w"
  using assms by (subst merge_loop.simps) (simp add: Let_def)

lemma merge_loop_submit:
  assumes "i < int (length ids)"
    "1 < length (slice ids i (min (i + B) (int (length ids))))"
  shows "merge_loop sdk c kp ids B i w =
     (let batch = slice ids i (min (i + B) (int (length ids))) in
      case signAndExecuteTransaction sdk c (build_merge batch) kp (remote w) of
        (Inl e, s) \<Rightarrow>
          Some (Inl e, emit (CallSignAndExecute (build_merge batch) kp (Inl e)) (w\<lparr>remote := s\<rparr>))
      | (Inr result, s) \<Rightarrow>
          (let w1 = emit (CallSignAndExecute (build_merge batch) kp (Inr result)) (w\<lparr>remote := s\<rparr>);
               w2 = console_log (BatchMerged (i div B + 1) (digest result)) w1;
               w3 = (if i + B < int (length ids) then sleep 1000 w2 else w2)
           in merge_loop sdk c kp ids B (i + B) w3))"
  using assms
  by (subst merge_loop.simps)
     (simp add: Let_def client_signAndExecuteTransaction_def split: prod.splits sum.splits)

lemma merge_loop_run:
  assumes B: "0 < B" and ok: "always_executes sdk"
  shows "\<exists>w' evs. merge_loop sdk c kp ids (int B) (int i) w = Some (Inr (), w') \<and>
            trace w' = trace w @ evs \<and>
            actions evs = plan (spec_batches B (drop i ids))"
proof (induction "length ids - i" arbitrary: i w rule: less_induct)
  case less
  show ?case
  proof (cases "i < length ids")
    case False
    then show ?thesis by (simp add: merge_loop_done)
  next
    case True
    let ?batch = "take B (drop i ids)"
    have sl: "slice ids (int i) (min (int i + int B) (int (length ids))) = ?batch"
      using True by (rule slice_take_drop)
    have ne: "drop i ids \<noteq> []" using True by simp
    have sb: "spec_batches B (drop i ids) = ?batch # spec_batches B (drop (i + B) ids)"
      using spec_batches_step[OF B ne] by (simp add: add.commute)
    have more: "spec_batches B (drop (i + B) ids) \<noteq> [] \<longleftrightarrow> i + B < length ids"
      using spec_batches_eq_Nil[OF B, of "drop (i + B) ids"] by auto
    have dec: "length ids - (i + B) < length ids - i" using True B by simp
    show ?thesis
    proof (cases "1 < length ?batch")
      case False
      from less.hyps[OF dec, of w] obtain w' evs where
        "merge_loop sdk c kp ids (int B) (int (i + B)) w = Some (Inr (), w')"
        "trace w' = trace w @ evs" "actions evs = plan (spec_batches B (drop (i + B) ids))"
        by blast
      moreover have "merge_loop sdk c kp ids (int B) (int i) w
                     = merge_loop sdk c kp ids (int B) (int (i + B)) w"
        using merge_loop_skip[of "int i" ids "int B" sdk c kp w] True False sl by simp
      ultimately show ?thesis using sb False by auto
    next
      case big: True
      obtain res s where ex: "signAndExecuteTransaction sdk c (build_merge ?batch) kp (remote w) = (Inr res, s)"
        using ok unfolding always_executes_def by blast
      let ?ev = "CallSignAndExecute (build_merge ?batch) kp (Inr res)"
      let ?w1 = "emit ?ev (w\<lparr>remote := s\<rparr>)"
      let ?w2 = "console_log (BatchMerged (int i div int B + 1) (digest res)) ?w1"
      let ?w3 = "if i + B < length ids then sleep 1000 ?w2 else ?w2"
      have step: "merge_loop sdk c kp ids (int B) (int i) w
                  = merge_loop sdk c kp ids (int B) (int (i + B)) ?w3"
        using merge_loop_submit[of "int i" ids "int B" sdk c kp w] True big sl ex
        by (simp add: Let_def)
      from less.hyps[OF dec, of ?w3] obtain w' evs where
        run: "merge_loop sdk c kp ids (int B) (int (i + B)) ?w3 = Some (Inr (), w')"
        and tr: "trace w' = trace ?w3 @ evs"
        and ac: "actions evs = plan (spec_batches B (drop (i + B) ids))"
        by blast
      let ?evs0 = "[?ev, ConsoleLog (BatchMerged (int i div int B + 1) (digest res))]
                   @ (if i + B < length ids then [SetTimeout 1000] else [])"
      have tr3: "trace ?w3 = trace w @ ?evs0"
        by (simp add: console_log_def sleep_def)
      have bne: "?batch \<noteq> []" using big by auto
      have a: "actions (?evs0 @ evs) = plan (spec_batches B (drop i ids))"
        using ac sb big more by (simp add: build_merge_eq[OF bne])
      have b: "trace w' = trace w @ (?evs0 @ evs)" using tr tr3 by simp
      show ?thesis
      proof (intro exI conjI)
        show "merge_loop sdk c kp ids (int B) (int i) w = Some (Inr (), w')"
          using step run by simp
        show "trace w' = trace w @ (?evs0 @ evs)" by (fact b)
        show "actions (?evs0 @ evs) = plan (spec_batches B (drop i ids))" by (fact a)
      qed
    qed
  qed
qed

lemma submissions_simps [simp]:
  "submissions [] = []"
  "submissions (a # as) = submit_of a @ submissions as"
  "submissions (as @ bs) = submissions as @ submissions bs"
  by (simp_all add: submissions_def)

lemma pauses_simps [simp]:
  "pauses [] = []"
  "pauses (a # as) = pause_of a @ pauses as"
  "pauses (as @ bs) = pauses as @ pauses bs"
  by (simp_all add: pauses_def)

lemma submissions_plan:
  "submissions (plan bs) = map merge_into_first (filter (\<lambda>b. 1 < length b) bs)"
  by (induction bs) simp_all

lemma pauses_plan:
  "pauses (plan bs) = replicate (length (filter (\<lambda>b. 1 < length b) (butlast bs))) 1000"
  by (induction bs) simp_all

lemma concat_spec_batches: "0 < B \<Longrightarrow> concat (spec_batches B xs) = xs"
proof (induction B xs rule: spec_batches.induct)
  case (1 B xs)
  then show ?case by (cases "xs = []") (simp_all add: spec_batches_step)
qed

lemma spec_batches_sizes:
  "0 < B \<Longrightarrow> b \<in> set (spec_batches B xs) \<Longrightarrow> b \<noteq> [] \<and> length b \<le> B"
proof (induction B xs rule: spec_batches.induct)
  case (1 B xs)
  then show ?case by (cases "xs = []") (auto simp add: spec_batches_step)
qed

lemma spec_batches_full:
  "0 < B \<Longrightarrow> b \<in> set (butlast (spec_batches B xs)) \<Longrightarrow> length b = B"
proof (induction B xs rule: spec_batches.induct)
  case (1 B xs)
  show ?case
  proof (cases "xs = []")
    case True
    with "1.prems" show ?thesis by simp
  next
    case False
    show ?thesis
    proof (cases "drop B xs = []")
      case True
      with "1.prems" False show ?thesis by (simp add: spec_batches_step)
    next
      case more: False
      then have "spec_batches B (drop B xs) \<noteq> []"
        using "1.prems"(1) by (simp add: spec_batches_eq_Nil)
      with "1.prems" False have "b = take B xs \<or> b \<in> set (butlast (spec_batches B (drop B xs)))"
        by (simp add: spec_batches_step)
      then show ?thesis
      proof
        assume "b = take B xs"
        with more show ?thesis by simp
      next
        assume "b \<in> set (butlast (spec_batches B (drop B xs)))"
        with "1.IH" "1.prems"(1) False show ?thesis by simp
      qed
    qed
  qed
qed

lemma ceil_nat_step: "0 < B \<Longrightarrow> 0 < n \<Longrightarrow> (n + B - 1) div B = (n - 1) div B + (1::nat)"
proof -
  assume B: "0 < B" and n: "0 < n"
  from n have e: "n + B - 1 = (n - 1) + B" by arith
  show ?thesis unfolding e using B by (simp only: div_add_self2 One_nat_def add_Suc_right add_0_right)
qed

lemma length_spec_batches:
  "0 < B \<Longrightarrow> length (spec_batches B xs) = (length xs + B - 1) div B"
proof (induction B xs rule: spec_batches.induct)
  case (1 B xs)
  show ?case
  proof (cases "xs = []")
    case True
    with "1.prems" show ?thesis by simp
  next
    case False
    then have pos: "0 < length xs" by simp
    have IH: "length (spec_batches B (drop B xs)) = (length xs - B + B - 1) div B"
      using "1.IH" "1.prems" False by simp
    have "(length xs - B + B - 1) div B = (length xs - 1) div B"
    proof (cases "B \<le> length xs")
      case True
      then show ?thesis by simp
    next
      case False
      then have "length xs - B + B - 1 < B" "length xs - 1 < B" using "1.prems" by simp_all
      then show ?thesis by simp
    qed
    with IH ceil_nat_step[OF "1.prems" pos] False "1.prems" show ?thesis
      by (simp add: spec_batches_step)
  qed
qed

lemma ceiling_div_nat:
  assumes "0 < (B::nat)"
  shows "\<lceil>real N / real B\<rceil> = int ((N + B - 1) div B)"
proof -
  define q where "q = (N + B - 1) div B"
  have up: "q * B \<le> N + B - 1" unfolding q_def by simp
  have "N + B - 1 < B + q * B"
    unfolding q_def using assms by (rule dividend_less_div_times)
  then have lo: "N \<le> q * B" using assms by simp
  from up assms have "q * B < N + B" by simp
  then have "real (q * B) < real (N + B)" by (simp only: of_nat_less_iff)
  then have "real q * real B < real N + real B" by simp
  then have "(real q - 1) * real B < real N" by (simp add: algebra_simps)
  then have a: "real_of_int (int q) - 1 < real N / real B"
    using assms by (simp add: pos_less_divide_eq)
  from lo have "real N \<le> real (q * B)" by (simp only: of_nat_le_iff)
  then have "real N \<le> real q * real B" by simp
  then have b: "real N / real B \<le> real_of_int (int q)"
    using assms by (simp add: pos_divide_le_eq)
  from a b have "\<lceil>real N / real B\<rceil> = int q" by (rule ceiling_unique)
  then show ?thesis by (simp add: q_def)
qed

lemma count_split:
  assumes "\<And>b. b \<in> set bs \<Longrightarrow> b \<noteq> []"
  shows "length (filter (\<lambda>b. 1 < length b) bs) + length (filter (\<lambda>b. length b = 1) bs) = length bs"
  using assms
proof (induction bs)
  case Nil
  then show ?case by simp
next
  case (Cons b bs)
  then have "b \<noteq> []" by simp
  then have "length b = 1 \<or> 1 < length b" by (cases b) auto
  with Cons show ?case by auto
qed

lemma filter_butlast_empty:
  "filter P (butlast bs) = [] \<Longrightarrow> length (filter P bs) \<le> 1"
  by (induction bs) (auto split: if_splits)

lemma singles_last:
  assumes "2 \<le> B"
  shows "length (filter (\<lambda>b. length b = 1) (spec_batches B xs)) \<le> 1 \<and>
         (\<forall>b \<in> set (butlast (spec_batches B xs)). length b \<noteq> 1)"
proof -
  let ?bs = "spec_batches B xs"
  from assms have B: "0 < B" by simp
  have full: "\<forall>b \<in> set (butlast ?bs). length b \<noteq> 1"
  proof
    fix b assume "b \<in> set (butlast ?bs)"
    then have "length b = B" using B by (rule spec_batches_full[rotated])
    with assms show "length b \<noteq> 1" by simp
  qed
  then have "filter (\<lambda>b. length b = 1) (butlast ?bs) = []"
    by (simp add: filter_empty_conv)
  then have "length (filter (\<lambda>b. length b = 1) ?bs) \<le> 1"
    by (rule filter_butlast_empty)
  with full show ?thesis by simp
qed

lemma singles_all:
  "b \<in> set (spec_batches 1 xs) \<Longrightarrow> length b = 1"
proof -
  assume "b \<in> set (spec_batches 1 xs)"
  then have "b \<noteq> [] \<and> length b \<le> 1" by (intro spec_batches_sizes) simp_all
  then show ?thesis by (cases b) simp_all
qed

subsection \<open>Termination and failures of the batching loop\<close>

lemma merge_loop_terminates:
  assumes "0 < B"
  shows "\<exists>r. merge_loop sdk c kp ids B i w = Some r"
proof (induction "nat (int (length ids) - i)" arbitrary: i w rule: less_induct)
  case less
  show ?case
  proof (cases "i < int (length ids)")
    case False
    then show ?thesis by (simp add: merge_loop_done)
  next
    case True
    then have dec: "nat (int (length ids) - (i + B)) < nat (int (length ids) - i)"
      using assms by simp
    let ?batch = "slice ids i (min (i + B) (int (length ids)))"
    show ?thesis
    proof (cases "1 < length ?batch")
      case False
      with True less.hyps[OF dec] show ?thesis by (simp add: merge_loop_skip)
    next
      case big: True
      obtain r s where ex: "signAndExecuteTransaction sdk c (build_merge ?batch) kp (remote w) = (r, s)"
        by (cases "signAndExecuteTransaction sdk c (build_merge ?batch) kp (remote w)")
      show ?thesis
      proof (cases r)
        case (Inl e)
        with True big ex show ?thesis by (simp add: merge_loop_submit Let_def)
      next
        case (Inr res)
        with True big ex less.hyps[OF dec] show ?thesis
          by (simp add: merge_loop_submit Let_def)
      qed
    qed
  qed
qed

lemma slice_zero_width:
  assumes "0 \<le> i" "i < int (length xs)"
  shows "slice xs i (min (i + 0) (int (length xs))) = []"
  using assms by (simp add: slice_def Let_def)

lemma merge_loop_diverges:
  assumes "merge_loop sdk c kp ids B i w = Some y" "B = 0" "0 \<le> i" "i < int (length ids)"
  shows False
  using assms
proof (induction sdk c kp ids B i w y rule: merge_loop.raw_induct[rotated 1, consumes 1])
  case (1 merge_loop sdk c kp ids B i w y)
  have "slice ids i (min (i + B) (int (length ids))) = []"
    using "1.prems" slice_zero_width[of i ids] by simp
  with "1.hyps" "1.prems" have "merge_loop sdk c kp ids B i w = Some y"
    by (simp add: Let_def)
  from "1.IH"[OF this "1.prems"] show False .
qed

lemma submit_errors_simps [simp]:
  "submit_errors [] = []"
  "submit_errors (ev # evs) = submit_error ev @ submit_errors evs"
  "submit_errors (evs @ evs') = submit_errors evs @ submit_errors evs'"
  by (simp_all add: submit_errors_def)

lemma fetch_loop_quiet:
  assumes "fetch_loop sdk c a t hm acc cur w = Some y"
  shows "\<exists>evs. trace (snd y) = trace w @ evs \<and> submit_errors evs = [] \<and> actions evs = []"
  using assms
proof (induction sdk c a t hm acc cur w y rule: fetch_loop.raw_induct[rotated 1, consumes 1])
  case (1 fetch_loop sdk c a t hm acc cur w y)
  note IH = "1.IH" and eq = "1.hyps"
  show ?case
  proof (cases hm)
    case False
    with eq show ?thesis by auto
  next
    case True
    obtain r0 s where g: "getCoins sdk c a t cur 50 (remote w) = (r0, s)"
      by (cases "getCoins sdk c a t cur 50 (remote w)")
    show ?thesis
    proof (cases r0)
      case (Inl e)
      with eq True g have "y = (Inl e, emit (CallGetCoins a t cur 50 (Inl e)) (w\<lparr>remote := s\<rparr>))"
        by (simp add: client_getCoins_def)
      then show ?thesis by simp
    next
      case (Inr pg)
      let ?acc1 = "acc @ map coinObjectId (data pg)"
      let ?ev = "CallGetCoins a t cur 50 (Inr pg)"
      let ?w1 = "emit ?ev (w\<lparr>remote := s\<rparr>)"
      show ?thesis
      proof (cases "5000 \<le> length ?acc1")
        case True
        with eq \<open>hm\<close> g Inr
        have "y = (Inr ?acc1, console_log (FetchedStopping (length ?acc1)) ?w1)"
          by (simp add: client_getCoins_def Let_def)
        then have "trace (snd y) = trace w @ [?ev, ConsoleLog (FetchedStopping (length ?acc1))]"
          by (simp add: console_log_def)
        then show ?thesis by (intro exI[of _ "[?ev, ConsoleLog (FetchedStopping (length ?acc1))]"]) simp
      next
        case False
        with eq \<open>hm\<close> g Inr
        have "fetch_loop sdk c a t (hasNextPage pg) ?acc1 (nextCursor pg) ?w1 = Some y"
          by (simp add: client_getCoins_def Let_def)
        from IH[OF this] obtain evs where
          "trace (snd y) = trace ?w1 @ evs" "submit_errors evs = []" "actions evs = []" by blast
        then show ?thesis by (intro exI[of _ "?ev # evs"]) simp
      qed
    qed
  qed
qed

lemma merge_loop_throws:
  assumes "merge_loop sdk c kp ids B i w = Some y"
  shows "\<exists>evs. trace (snd y) = trace w @ evs \<and> merge_post evs (fst y)"
  using assms
proof (induction sdk c kp ids B i w y rule: merge_loop.raw_induct[rotated 1, consumes 1])
  case (1 merge_loop sdk c kp ids B i w y)
  define batch where "batch = slice ids i (min (i + B) (int (length ids)))"
  note IH = "1.IH" and eq = "1.hyps"[folded batch_def]
  show ?case
  proof (cases "i < int (length ids)")
    case False
    with eq have "y = (Inr (), w)" by simp
    then show ?thesis by (simp add: merge_post_def)
  next
    case True
    show ?thesis
    proof (cases "1 < length batch")
      case False
      with eq True have "merge_loop sdk c kp ids B (i + B) w = Some y" by (simp add: Let_def)
      from IH[OF this] show ?thesis .
    next
      case big: True
      obtain r s where ex: "signAndExecuteTransaction sdk c (build_merge batch) kp (remote w) = (r, s)"
        by (cases "signAndExecuteTransaction sdk c (build_merge batch) kp (remote w)")
      let ?ev = "CallSignAndExecute (build_merge batch) kp r"
      let ?w1 = "emit ?ev (w\<lparr>remote := s\<rparr>)"
      show ?thesis
      proof (cases r)
        case (Inl e)
        with eq True big ex have "y = (Inl e, ?w1)"
          by (simp add: Let_def client_signAndExecuteTransaction_def)
        then show ?thesis using Inl by (intro exI[of _ "[?ev]"]) (simp add: merge_post_def)
      next
        case (Inr res)
        let ?w2 = "console_log (BatchMerged (i div B + 1) (digest res)) ?w1"
        let ?evs0 = "[?ev, ConsoleLog (BatchMerged (i div B + 1) (digest res))]
                   @ (if i + B < int (length ids) then [SetTimeout 1000] else [])"
        define w3 where "w3 = (if i + B < int (length ids) then sleep 1000 ?w2 else ?w2)"
        from eq True big ex Inr have "merge_loop sdk c kp ids B (i + B) w3 = Some y"
          by (cases "i + B < int (length ids)")
             (simp_all add: Let_def client_signAndExecuteTransaction_def w3_def)
        from IH[OF this] obtain evs where
          tr: "trace (snd y) = trace w3 @ evs" and post: "merge_post evs (fst y)" by blast
        have tr3: "trace w3 = trace w @ ?evs0" by (simp add: console_log_def sleep_def w3_def)
        have t0: "submit_errors ?evs0 = []" using Inr by simp
        have "merge_post (?evs0 @ evs) (fst y)"
        proof (cases "fst y")
          case (Inl e)
          with post have "submit_errors evs = [e]" "evs \<noteq> []" "submit_error (last evs) = [e]"
            "\<not> list_ex failed_call evs"
            by (simp_all add: merge_post_def)
          with t0 Inl show ?thesis by (simp add: merge_post_def del: append.simps)
        next
          case (Inr u)
          with post t0 show ?thesis by (simp add: merge_post_def del: append.simps)
        qed
        moreover have "trace (snd y) = trace w @ (?evs0 @ evs)" using tr tr3 by simp
        ultimately show ?thesis by blast
      qed
    qed
  qed
qed

subsection \<open>The Object Lister as a whole\<close>

lemma script_sdk_simps [simp]:
  "getAllBalances (script_sdk bals pages execs) c owner s = (bals, Suc s)"
  "getCoins (script_sdk bals pages execs) c owner ty cursor lmt s = (pages s, Suc s)"
  "signAndExecuteTransaction (script_sdk bals pages execs) c txb signer s = (execs s, Suc s)"
  "fromSecretKey (script_sdk bals pages execs) k = Inr (Ed25519Keypair k)"
  "toSuiAddress (script_sdk bals pages execs) kp = ''0x'' @ secretKey kp"
  "decodeSuiPrivateKey (script_sdk bals pages execs) v =
     (case v of None \<Rightarrow> Inl (Error ''no key'') | Some k \<Rightarrow> Inr k)"
  by (simp_all add: script_sdk_def)

lemma fetch_loop_True:
  "fetch_loop sdk c a t True acc cur w =
     (case client_getCoins sdk c a t cur 50 w of
        (Inl e, w1) \<Rightarrow> Some (Inl e, w1)
      | (Inr pg, w1) \<Rightarrow>
          (let acc1 = acc @ map coinObjectId (data pg) in
           if 5000 \<le> length acc1
           then Some (Inr acc1, console_log (FetchedStopping (length acc1)) w1)
           else fetch_loop sdk c a t (hasNextPage pg) acc1 (nextCursor pg) w1))"
  by (subst fetch_loop.simps) simp

lemma new_events_append [simp]: "trace w' = trace w @ evs \<Longrightarrow> new_events w w' = evs"
  by (simp add: new_events_def)

lemma getAllTokenObjectIds_cases:
  assumes "getAllTokenObjectIds sdk c a t w = Some (ids, w')"
  shows "\<exists>evs. trace w' = trace w @ evs \<and>
           (fetch_post [] evs (Inr ids) \<or>
            (\<exists>e evs0. evs = evs0 @ [ConsoleError (ErrorFetchingCoinObjectIds a e)] \<and>
                       fetch_post [] evs0 (Inl e) \<and> ids = []))"
proof -
  from assms obtain res w1 where run: "fetch_loop sdk c a t True [] None w = Some (res, w1)"
    by (auto simp: getAllTokenObjectIds_def split: option.splits)
  from fetch_loop_run[OF run] obtain evs where
    tr: "trace w1 = trace w @ evs" and post: "fetch_post [] evs res" by auto
  show ?thesis
  proof (cases res)
    case (Inl e)
    with assms run have "ids = []" "w' = console_error (ErrorFetchingCoinObjectIds a e) w1"
      by (simp_all add: getAllTokenObjectIds_def)
    with tr post Inl show ?thesis by (simp add: console_error_def)
  next
    case (Inr r)
    with assms run have "ids = r" "w' = w1" by (simp_all add: getAllTokenObjectIds_def)
    with tr post Inr show ?thesis by auto
  qed
qed

lemma fetch_terminates_failure:
  assumes "nth_response sdk c a t cur (remote w) k = Inl e"
  shows "\<exists>r. fetch_loop sdk c a t hm acc cur w = Some r"
  using assms
proof (induction k arbitrary: acc cur w hm)
  case 0
  show ?case
  proof (cases hm)
    case False
    then show ?thesis by (simp add: fetch_loop_False)
  next
    case True
    obtain s where "getCoins sdk c a t cur 50 (remote w) = (Inl e, s)"
      using "0.prems" by (cases "getCoins sdk c a t cur 50 (remote w)") simp
    with True show ?thesis by (simp add: fetch_loop_Inl)
  qed
next
  case (Suc k)
  show ?case
  proof (cases hm)
    case False
    then show ?thesis by (simp add: fetch_loop_False)
  next
    case True
    obtain r s where g: "getCoins sdk c a t cur 50 (remote w) = (r, s)"
      by (cases "getCoins sdk c a t cur 50 (remote w)")
    show ?thesis
    proof (cases r)
      case (Inl e')
      with g True show ?thesis by (simp add: fetch_loop_Inl)
    next
      case (Inr pg0)
      let ?w1 = "emit (CallGetCoins a t cur 50 (Inr pg0)) (w\<lparr>remote := s\<rparr>)"
      have "nth_response sdk c a t (nextCursor pg0) (remote ?w1) k = Inl e"
        using Suc.prems g Inr by simp
      from Suc.IH[OF this]
      have "\<exists>r. fetch_loop sdk c a t (hasNextPage pg0) (acc @ map coinObjectId (data pg0))
                   (nextCursor pg0) ?w1 = Some r" .
      with g Inr True show ?thesis by (simp add: fetch_loop_Inr Let_def)
    qed
  qed
qed

lemma getAllTokenObjectIds_returns:
  "(\<exists>r. fetch_loop sdk c a t True [] None w = Some r) \<Longrightarrow>
   (\<exists>r. getAllTokenObjectIds sdk c a t w = Some r)"
  by (auto simp: getAllTokenObjectIds_def split: sum.splits)

lemma nth_response_const:
  "nth_response (script_sdk bals (\<lambda>k. Inr pg) execs) c a t cur s k = Inr pg"
  by (induction k arbitrary: cur s) simp_all

lemma ids_of_append: "ids_of (ps @ qs) = ids_of ps @ ids_of qs"
  by (simp add: ids_of_def)

lemma fetch_post_bound:
  assumes "fetch_post [] evs (Inr ids)"
  shows "length ids < 5000 + length (data (last (pages_of evs)))"
proof -
  let ?pgs = "pages_of evs"
  from assms have ne: "?pgs \<noteq> []" and r: "ids = ids_of ?pgs"
    and small: "length (ids_of (butlast ?pgs)) < 5000"
    by (simp_all add: fetch_post_def)
  from ne have "?pgs = butlast ?pgs @ [last ?pgs]" by simp
  then have "ids_of ?pgs = ids_of (butlast ?pgs) @ ids_of [last ?pgs]"
    by (metis ids_of_append)
  with r small show ?thesis by simp
qed

lemma page49_run:
  assumes "k \<le> 102" "length acc = 49 * k"
  shows "\<exists>r w'. fetch_loop (script_sdk bals (\<lambda>k. Inr page49) execs) c a t True acc cur w
                   = Some (Inr r, w') \<and> length r = 5047"
  using assms
proof (induction "102 - k" arbitrary: k acc cur w)
  case 0
  then have "k = 102" by simp
  with "0.prems" show ?case
    by (simp add: fetch_loop_True client_getCoins_def page49_def coins_def Let_def)
next
  case (Suc n)
  then have k: "k < 102" by simp
  let ?acc1 = "acc @ map coinObjectId (data page49)"
  have len: "length ?acc1 = 49 * Suc k" using Suc.prems by (simp add: page49_def coins_def)
  with k have small: "\<not> 5000 \<le> length ?acc1" by simp
  have "\<exists>r w'. fetch_loop (script_sdk bals (\<lambda>k. Inr page49) execs) c a t True ?acc1
           (nextCursor page49)
           (emit (CallGetCoins a t cur 50 (Inr page49)) (w\<lparr>remote := Suc (remote w)\<rparr>))
         = Some (Inr r, w') \<and> length r = 5047"
  proof (rule Suc.hyps(1)[of "Suc k"])
    show "n = 102 - Suc k" using Suc.hyps(2) by simp
    show "Suc k \<le> 102" using k by simp
    show "length ?acc1 = 49 * Suc k" by (fact len)
  qed
  moreover have "hasNextPage page49" by (simp add: page49_def)
  ultimately show ?case using small
    by (subst fetch_loop_True) (simp add: client_getCoins_def Let_def)
qed

subsection \<open>The Batch Merger as a whole\<close>

lemma plan_short: "0 < B \<Longrightarrow> length ids \<le> 1 \<Longrightarrow> plan (spec_batches B ids) = []"
proof (cases ids)
  case Nil
  then show ?thesis by simp
next
  case (Cons x xs)
  assume "0 < B" "length ids \<le> 1"
  with Cons have "ids = [x]" by simp
  with \<open>0 < B\<close> show ?thesis by (simp add: spec_batches_step)
qed

lemma mergeCoinObjects_short:
  assumes "fromSecretKey sdk pk = Inr kp"
    and "getAllTokenObjectIds sdk (SuiClient rpcUrl) (toSuiAddress sdk kp) t w = Some (ids, w1)"
    and "length ids \<le> 1"
  shows "mergeCoinObjects sdk pk t batchSize rpcUrl w = Some (Inr (), console_log NoCoinsNeedMerge w1)"
  using assms by (simp add: mergeCoinObjects_def merge_try_def Let_def)

lemma mergeCoinObjects_long:
  assumes "fromSecretKey sdk pk = Inr kp"
    and "getAllTokenObjectIds sdk (SuiClient rpcUrl) (toSuiAddress sdk kp) t w = Some (ids, w1)"
    and "\<not> length ids \<le> 1"
  shows "mergeCoinObjects sdk pk t batchSize rpcUrl w =
     (case merge_loop sdk (SuiClient rpcUrl) kp ids batchSize 0
             (console_log (FoundObjects (length ids) t) w1) of
        None \<Rightarrow> None
      | Some (Inl e, w3) \<Rightarrow> Some (Inl e, console_error (ErrorMergingCoins e) w3)
      | Some (Inr u, w3) \<Rightarrow> Some (Inr (), console_log AllMerged w3))"
  using assms
  by (simp add: mergeCoinObjects_def merge_try_def Let_def split: option.splits sum.splits prod.splits)

lemma mergeCoinObjects_run:
  assumes key: "fromSecretKey sdk pk = Inr kp"
    and list: "getAllTokenObjectIds sdk (SuiClient rpcUrl) (toSuiAddress sdk kp) t w = Some (ids, w1)"
    and B: "0 < B" and ok: "always_executes sdk"
  shows "\<exists>w'. mergeCoinObjects sdk pk t (int B) rpcUrl w = Some (Inr (), w') \<and>
              actions (new_events w1 w') = plan (spec_batches B ids)"
proof (cases "length ids \<le> 1")
  case True
  have "trace (console_log NoCoinsNeedMerge w1) = trace w1 @ [ConsoleLog NoCoinsNeedMerge]"
    by (simp add: console_log_def)
  then have "actions (new_events w1 (console_log NoCoinsNeedMerge w1)) = []" by simp
  with mergeCoinObjects_short[OF key list True] plan_short[OF B True] show ?thesis by simp
next
  case False
  let ?w2 = "console_log (FoundObjects (length ids) t) w1"
  from merge_loop_run[OF B ok, of "SuiClient rpcUrl" kp ids 0 ?w2] obtain w3 evs where
    run: "merge_loop sdk (SuiClient rpcUrl) kp ids (int B) 0 ?w2 = Some (Inr (), w3)"
    and tr: "trace w3 = trace ?w2 @ evs"
    and ac: "actions evs = plan (spec_batches B ids)"
    by auto
  have "trace (console_log AllMerged w3)
          = trace w1 @ ([ConsoleLog (FoundObjects (length ids) t)] @ evs @ [ConsoleLog AllMerged])"
    using tr by (simp add: console_log_def)
  then have "new_events w1 (console_log AllMerged w3)
          = [ConsoleLog (FoundObjects (length ids) t)] @ evs @ [ConsoleLog AllMerged]"
    by (rule new_events_append)
  then have "actions (new_events w1 (console_log AllMerged w3)) = plan (spec_batches B ids)"
    using ac by simp
  moreover have "mergeCoinObjects sdk pk t (int B) rpcUrl w = Some (Inr (), console_log AllMerged w3)"
    using mergeCoinObjects_long[OF key list False, of "int B"] run by simp
  ultimately show ?thesis by blast
qed

lemma merge_loop_prefix:
  assumes B: "0 < B"
  shows "\<exists>res w' evs rest. merge_loop sdk c kp ids (int B) (int i) w = Some (res, w') \<and>
            trace w' = trace w @ evs \<and>
            plan (spec_batches B (drop i ids)) = actions evs @ rest \<and>
            (res = Inr () \<longrightarrow> rest = [])"
proof (induction "length ids - i" arbitrary: i w rule: less_induct)
  case less
  show ?case
  proof (cases "i < length ids")
    case False
    then show ?thesis by (simp add: merge_loop_done)
  next
    case True
    let ?batch = "take B (drop i ids)"
    have sl: "slice ids (int i) (min (int i + int B) (int (length ids))) = ?batch"
      using True by (rule slice_take_drop)
    have ne: "drop i ids \<noteq> []" using True by simp
    have sb: "spec_batches B (drop i ids) = ?batch # spec_batches B (drop (i + B) ids)"
      using spec_batches_step[OF B ne] by (simp add: add.commute)
    have more: "spec_batches B (drop (i + B) ids) \<noteq> [] \<longleftrightarrow> i + B < length ids"
      using spec_batches_eq_Nil[OF B, of "drop (i + B) ids"] by auto
    have dec: "length ids - (i + B) < length ids - i" using True B by simp
    show ?thesis
    proof (cases "1 < length ?batch")
      case False
      from less.hyps[OF dec, of w] obtain res w' evs rest where
        "merge_loop sdk c kp ids (int B) (int (i + B)) w = Some (res, w')"
        "trace w' = trace w @ evs"
        "plan (spec_batches B (drop (i + B) ids)) = actions evs @ rest"
        "res = Inr () \<longrightarrow> rest = []"
        by blast
      moreover have "merge_loop sdk c kp ids (int B) (int i) w
                     = merge_loop sdk c kp ids (int B) (int (i + B)) w"
        using merge_loop_skip[of "int i" ids "int B" sdk c kp w] True False sl by simp
      ultimately show ?thesis using sb False by auto
    next
      case big: True
      have bne: "?batch \<noteq> []" using big by auto
      obtain r s where ex: "signAndExecuteTransaction sdk c (build_merge ?batch) kp (remote w) = (r, s)"
        by (cases "signAndExecuteTransaction sdk c (build_merge ?batch) kp (remote w)")
      let ?ev = "CallSignAndExecute (build_merge ?batch) kp r"
      let ?w1 = "emit ?ev (w\<lparr>remote := s\<rparr>)"
      show ?thesis
      proof (cases r)
        case (Inl e)
        have "merge_loop sdk c kp ids (int B) (int i) w = Some (Inl e, ?w1)"
          using merge_loop_submit[of "int i" ids "int B" sdk c kp w] True big sl ex Inl
          by (simp add: Let_def)
        moreover have "trace ?w1 = trace w @ [?ev]" by simp
        moreover have "plan (spec_batches B (drop i ids))
            = actions [?ev] @ ((if i + B < length ids then [Pause 1000] else [])
                               @ plan (spec_batches B (drop (i + B) ids)))"
          using sb big more by (simp add: build_merge_eq[OF bne])
        ultimately show ?thesis by blast
      next
        case (Inr res)
        let ?w2 = "console_log (BatchMerged (int i div int B + 1) (digest res)) ?w1"
        let ?w3 = "if i + B < length ids then sleep 1000 ?w2 else ?w2"
        have step: "merge_loop sdk c kp ids (int B) (int i) w
                    = merge_loop sdk c kp ids (int B) (int (i + B)) ?w3"
          using merge_loop_submit[of "int i" ids "int B" sdk c kp w] True big sl ex Inr
          by (simp add: Let_def)
        from less.hyps[OF dec, of ?w3] obtain res' w' evs rest where
          run: "merge_loop sdk c kp ids (int B) (int (i + B)) ?w3 = Some (res', w')"
          and tr: "trace w' = trace ?w3 @ evs"
          and ac: "plan (spec_batches B (drop (i + B) ids)) = actions evs @ rest"
          and fin: "res' = Inr () \<longrightarrow> rest = []"
          by blast
        let ?evs0 = "[?ev, ConsoleLog (BatchMerged (int i div int B + 1) (digest res))]
                     @ (if i + B < length ids then [SetTimeout 1000] else [])"
        have tr3: "trace ?w3 = trace w @ ?evs0"
          by (simp add: console_log_def sleep_def)
        have a: "plan (spec_batches B (drop i ids)) = actions (?evs0 @ evs) @ rest"
          using ac sb big more by (simp add: build_merge_eq[OF bne])
        have b: "trace w' = trace w @ (?evs0 @ evs)" using tr tr3 by simp
        show ?thesis
        proof (intro exI conjI)
          show "merge_loop sdk c kp ids (int B) (int i) w = Some (res', w')"
            using step run by simp
          show "trace w' = trace w @ (?evs0 @ evs)" by (fact b)
          show "plan (spec_batches B (drop i ids)) = actions (?evs0 @ evs) @ rest" by (fact a)
          show "res' = Inr () \<longrightarrow> rest = []" by (fact fin)
        qed
      qed
    qed
  qed
qed

lemma mergeCoinObjects_prefix:
  assumes key: "fromSecretKey sdk pk = Inr kp"
    and list: "getAllTokenObjectIds sdk (SuiClient rpcUrl) (toSuiAddress sdk kp) t w = Some (ids, w1)"
    and B: "0 < B"
  shows "\<exists>res w' rest. mergeCoinObjects sdk pk t (int B) rpcUrl w = Some (res, w') \<and>
              plan (spec_batches B ids) = actions (new_events w1 w') @ rest \<and>
              (res = Inr () \<longrightarrow> rest = [])"
proof (cases "length ids \<le> 1")
  case True
  have "trace (console_log NoCoinsNeedMerge w1) = trace w1 @ [ConsoleLog NoCoinsNeedMerge]"
    by (simp add: console_log_def)
  then have "actions (new_events w1 (console_log NoCoinsNeedMerge w1)) = []" by simp
  with mergeCoinObjects_short[OF key list True] plan_short[OF B True] show ?thesis by simp
next
  case False
  let ?w2 = "console_log (FoundObjects (length ids) t) w1"
  from merge_loop_prefix[OF B, of sdk "SuiClient rpcUrl" kp ids 0 ?w2] obtain res w3 evs rest where
    run: "merge_loop sdk (SuiClient rpcUrl) kp ids (int B) 0 ?w2 = Some (res, w3)"
    and tr: "trace w3 = trace ?w2 @ evs"
    and ac: "plan (spec_batches B ids) = actions evs @ rest"
    and fin: "res = Inr () \<longrightarrow> rest = []"
    by auto
  show ?thesis
  proof (cases res)
    case (Inl e)
    have "trace (console_error (ErrorMergingCoins e) w3)
          = trace w1 @ ([ConsoleLog (FoundObjects (length ids) t)] @ evs @ [ConsoleError (ErrorMergingCoins e)])"
      using tr by (simp add: console_log_def console_error_def)
    then have "new_events w1 (console_error (ErrorMergingCoins e) w3)
          = [ConsoleLog (FoundObjects (length ids) t)] @ evs @ [ConsoleError (ErrorMergingCoins e)]"
      by (rule new_events_append)
    then have "plan (spec_batches B ids)
          = actions (new_events w1 (console_error (ErrorMergingCoins e) w3)) @ rest"
      using ac by simp
    moreover have "mergeCoinObjects sdk pk t (int B) rpcUrl w
          = Some (Inl e, console_error (ErrorMergingCoins e) w3)"
      using mergeCoinObjects_long[OF key list False, of "int B"] run Inl by simp
    ultimately show ?thesis by blast
  next
    case (Inr u)
    have "trace (console_log AllMerged w3)
          = trace w1 @ ([ConsoleLog (FoundObjects (length ids) t)] @ evs @ [ConsoleLog AllMerged])"
      using tr by (simp add: console_log_def)
    then have "new_events w1 (console_log AllMerged w3)
          = [ConsoleLog (FoundObjects (length ids) t)] @ evs @ [ConsoleLog AllMerged]"
      by (rule new_events_append)
    then have "plan (spec_batches B ids) = actions (new_events w1 (console_log AllMerged w3)) @ rest"
      using ac by simp
    moreover have "mergeCoinObjects sdk pk t (int B) rpcUrl w = Some (Inr (), console_log AllMerged w3)"
      using mergeCoinObjects_long[OF key list False, of "int B"] run Inr by simp
    ultimately show ?thesis using fin Inr by auto
  qed
qed

subsection \<open>The example nodes\<close>

lemma always_executes_demo: "always_executes demo_sdk"
  by (simp add: always_executes_def demo_sdk_def accept_def)

lemma demo_key: "fromSecretKey demo_sdk ''6b'' = Inr (Ed25519Keypair ''6b'')"
  by (simp add: demo_sdk_def)

lemma demo_list:
  "getAllTokenObjectIds demo_sdk (SuiClient SUI_RPC_URL) (toSuiAddress demo_sdk (Ed25519Keypair ''6b''))
     ''0x2::sui::SUI'' w0 = Some ([''0xc1'', ''0xc2'', ''0xc3''], listed)"
  by (simp add: demo_sdk_def getAllTokenObjectIds_def fetch_loop_True fetch_loop_False
      client_getCoins_def emit_def w0_def listed_def three_coins_def coins_def)

lemma spec_batches_demo:
  "spec_batches 2 [''0xc1'', ''0xc2'', ''0xc3''] = [[''0xc1'', ''0xc2''], [''0xc3'']]"
  by (simp add: spec_batches_step)

lemma spec_batches_1200:
  assumes "length ids = 1200"
  shows "spec_batches 500 ids = [take 500 ids, take 500 (drop 500 ids), drop 1000 ids]"
proof -
  have a: "ids \<noteq> []" "drop 500 ids \<noteq> []" "drop 1000 ids \<noteq> []" using assms by auto
  have "spec_batches 500 ids = take 500 ids # spec_batches 500 (drop 500 ids)"
    using a(1) by (simp add: spec_batches_step)
  also have "spec_batches 500 (drop 500 ids)
               = take 500 (drop 500 ids) # spec_batches 500 (drop 1000 ids)"
    using a(2) by (simp add: spec_batches_step)
  also have "spec_batches 500 (drop 1000 ids) = [drop 1000 ids]"
    using a(3) assms by (simp add: spec_batches_step)
  finally show ?thesis .
qed

lemma pages_1200_run:
  assumes "k \<le> 23" "remote w = k" "length acc = 50 * k"
  shows "\<exists>r w'. fetch_loop big_sdk c a t True acc cur w = Some (Inr r, w') \<and> length r = 1200"
  using assms
proof (induction "23 - k" arbitrary: k acc cur w)
  case 0
  then have "k = 23" by simp
  with "0.prems" show ?case
    by (simp add: big_sdk_def fetch_loop_True fetch_loop_False client_getCoins_def
        pages_1200_def coins_def Let_def)
next
  case (Suc n)
  then have k: "k < 23" by simp
  let ?pg = "\<lparr> data = coins (replicate 50 ''0xc''), hasNextPage = True, nextCursor = Some ''0xc'' \<rparr>"
  let ?acc1 = "acc @ map coinObjectId (data ?pg)"
  let ?w1 = "emit (CallGetCoins a t cur 50 (Inr ?pg)) (w\<lparr>remote := Suc (remote w)\<rparr>)"
  have pg: "pages_1200 (remote w) = Inr ?pg" using k Suc.prems by (simp add: pages_1200_def)
  have len: "length ?acc1 = 50 * Suc k" using Suc.prems by (simp add: coins_def)
  with k have small: "\<not> 5000 \<le> length ?acc1" by simp
  have "\<exists>r w'. fetch_loop big_sdk c a t True ?acc1 (nextCursor ?pg) ?w1 = Some (Inr r, w')
            \<and> length r = 1200"
  proof (rule Suc.hyps(1)[of "Suc k"])
    show "n = 23 - Suc k" using Suc.hyps(2) by simp
    show "Suc k \<le> 23" using k by simp
    show "remote ?w1 = Suc k" using Suc.prems by simp
    show "length ?acc1 = 50 * Suc k" by (fact len)
  qed
  then show ?case using small pg
    by (subst fetch_loop_True) (simp add: big_sdk_def client_getCoins_def Let_def)
qed

lemma big_list:
  "\<exists>ids w1. getAllTokenObjectIds big_sdk c a t w0 = Some (ids, w1) \<and> length ids = 1200"
proof -
  from pages_1200_run[of 0 w0 "[]" c a t None] obtain r w' where
    "fetch_loop big_sdk c a t True [] None w0 = Some (Inr r, w')" "length r = 1200"
    by (auto simp: w0_def)
  then show ?thesis by (simp add: getAllTokenObjectIds_def)
qed

lemma always_executes_big: "always_executes big_sdk"
  by (simp add: always_executes_def big_sdk_def accept_def)

lemma big_key: "fromSecretKey big_sdk ''6b'' = Inr (Ed25519Keypair ''6b'')"
  by (simp add: big_sdk_def)

subsection \<open>Errors of the Batch Merger and the Driver loop\<close>

lemma getAllTokenObjectIds_quiet:
  assumes "getAllTokenObjectIds sdk c a t w = Some (ids, w1)"
  shows "\<exists>evs. trace w1 = trace w @ evs \<and> submit_errors evs = [] \<and> actions evs = []"
proof -
  from assms obtain res w0 where run: "fetch_loop sdk c a t True [] None w = Some (res, w0)"
    by (auto simp: getAllTokenObjectIds_def split: option.splits)
  from fetch_loop_quiet[OF run] obtain evs where
    tr: "trace w0 = trace w @ evs" and q: "submit_errors evs = []" "actions evs = []" by auto
  show ?thesis
  proof (cases res)
    case (Inl e)
    with assms run have "w1 = console_error (ErrorFetchingCoinObjectIds a e) w0"
      by (simp add: getAllTokenObjectIds_def)
    with tr have "trace w1 = trace w @ (evs @ [ConsoleError (ErrorFetchingCoinObjectIds a e)])"
      by (simp add: console_error_def)
    moreover have "submit_errors (evs @ [ConsoleError (ErrorFetchingCoinObjectIds a e)]) = []"
      "actions (evs @ [ConsoleError (ErrorFetchingCoinObjectIds a e)]) = []"
      using q by simp_all
    ultimately show ?thesis by blast
  next
    case (Inr r)
    with assms run have "w1 = w0" by (simp add: getAllTokenObjectIds_def)
    with tr q show ?thesis by blast
  qed
qed

lemma mergeCoinObjects_key_failure:
  "fromSecretKey sdk pk = Inl e \<Longrightarrow>
   mergeCoinObjects sdk pk t batchSize rpcUrl w = Some (Inl e, console_error (ErrorMergingCoins e) w)"
  by (simp add: mergeCoinObjects_def merge_try_def)

lemma getAllTokenObjectIds_clean:
  assumes "getAllTokenObjectIds sdk c a t w = Some (ids, w1)"
    and "trace w1 = trace w @ evs" and "ids \<noteq> []"
  shows "\<not> list_ex failed_call evs"
proof -
  from getAllTokenObjectIds_cases[OF assms(1)] obtain evs' where
    tr: "trace w1 = trace w @ evs'" and
    alt: "fetch_post [] evs' (Inr ids) \<or>
          (\<exists>e evs0. evs' = evs0 @ [ConsoleError (ErrorFetchingCoinObjectIds a e)] \<and>
                     fetch_post [] evs0 (Inl e) \<and> ids = [])"
    by blast
  from tr assms(2) have "evs' = evs" by simp
  with alt assms(3) show ?thesis by (auto simp: fetch_post_def)
qed

lemma mergeCoinObjects_outcome:
  assumes run: "mergeCoinObjects sdk pk t batchSize rpcUrl w = Some (res, w')"
  shows "\<exists>evs. trace w' = trace w @ evs \<and> call_post sdk pk evs res"
proof (cases "fromSecretKey sdk pk")
  case (Inl e)
  from mergeCoinObjects_key_failure[OF Inl] run
  have "res = Inl e" "w' = console_error (ErrorMergingCoins e) w" by simp_all
  then have "trace w' = trace w @ [ConsoleError (ErrorMergingCoins e)]"
    by (simp add: console_error_def)
  moreover have "call_post sdk pk [ConsoleError (ErrorMergingCoins e)] res"
    using Inl \<open>res = Inl e\<close> by (simp add: call_post_def)
  ultimately show ?thesis by blast
next
  case (Inr kp)
  show ?thesis
  proof (cases "getAllTokenObjectIds sdk (SuiClient rpcUrl) (toSuiAddress sdk kp) t w")
    case None
    with Inr run show ?thesis by (simp add: mergeCoinObjects_def merge_try_def)
  next
    case (Some p)
    obtain ids w1 where p: "p = (ids, w1)" by (cases p)
    note list = Some[unfolded p]
    from getAllTokenObjectIds_quiet[OF list] obtain evs1 where
      tr1: "trace w1 = trace w @ evs1" and q1: "submit_errors evs1 = []" by blast
    show ?thesis
    proof (cases "length ids \<le> 1")
      case True
      from mergeCoinObjects_short[OF Inr list True, of batchSize] run
      have "res = Inr ()" "w' = console_log NoCoinsNeedMerge w1" by simp_all
      then have "trace w' = trace w @ (evs1 @ [ConsoleLog NoCoinsNeedMerge])"
        using tr1 by (simp add: console_log_def)
      moreover have "call_post sdk pk (evs1 @ [ConsoleLog NoCoinsNeedMerge]) res"
        using q1 \<open>res = Inr ()\<close> by (simp add: call_post_def)
      ultimately show ?thesis by blast
    next
      case False
      then have "ids \<noteq> []" by auto
      with list tr1 have c1: "\<not> list_ex failed_call evs1"
        by (rule getAllTokenObjectIds_clean)
      let ?w2 = "console_log (FoundObjects (length ids) t) w1"
      note long = mergeCoinObjects_long[OF Inr list False, of batchSize]
      show ?thesis
      proof (cases "merge_loop sdk (SuiClient rpcUrl) kp ids batchSize 0 ?w2")
        case None
        with long run show ?thesis by simp
      next
        case (Some y)
        obtain r3 w3 where y: "y = (r3, w3)" by (cases y)
        from merge_loop_throws[OF Some] y obtain evs3 where
          tr3: "trace w3 = trace ?w2 @ evs3" and post: "merge_post evs3 r3" by auto
        show ?thesis
        proof (cases r3)
          case (Inl e)
          with long run Some y have "res = Inl e" "w' = console_error (ErrorMergingCoins e) w3"
            by simp_all
          then have "trace w' = trace w @ (evs1 @ [ConsoleLog (FoundObjects (length ids) t)] @ evs3
                        @ [ConsoleError (ErrorMergingCoins e)])"
            using tr1 tr3 by (simp add: console_log_def console_error_def)
          moreover have "call_post sdk pk (evs1 @ [ConsoleLog (FoundObjects (length ids) t)] @ evs3
                        @ [ConsoleError (ErrorMergingCoins e)]) res"
            using q1 c1 post Inl \<open>res = Inl e\<close> by (simp add: call_post_def merge_post_def)
          ultimately show ?thesis by blast
        next
          case (Inr u)
          with long run Some y have "res = Inr ()" "w' = console_log AllMerged w3"
            by simp_all
          then have "trace w' = trace w @ (evs1 @ [ConsoleLog (FoundObjects (length ids) t)] @ evs3
                        @ [ConsoleLog AllMerged])"
            using tr1 tr3 by (simp add: console_log_def)
          moreover have "call_post sdk pk (evs1 @ [ConsoleLog (FoundObjects (length ids) t)] @ evs3
                        @ [ConsoleLog AllMerged]) res"
            using q1 post Inr \<open>res = Inr ()\<close> by (simp add: call_post_def merge_post_def)
          ultimately show ?thesis by blast
        qed
      qed
    qed
  qed
qed

lemma main_loop_append:
  "main_loop sdk pk (xs @ ys) w =
     (case main_loop sdk pk xs w of
        None \<Rightarrow> None
      | Some (Inl e, w1) \<Rightarrow> Some (Inl e, w1)
      | Some (Inr u, w1) \<Rightarrow> main_loop sdk pk ys w1)"
  by (induction xs arbitrary: w) (auto split: option.splits sum.splits)

section \<open>The Balance Lister\<close>

text \<open>
  Claim C8, as the code has it. \<^verbatim>\<open>getOwnedTokens\<close> returns the \<^verbatim>\<open>coinType\<close> of every entry
  of the node's answer, in the node's order. It removes neither repeated types nor entries
  whose balance is zero: the result is free of duplicates exactly when the answer is, and
  every type that the answer lists with balance zero is in the result.
\<close>

theorem getOwnedTokens_lists_every_entry:
  assumes "getAllBalances sdk c address (remote w) = (Inr allBalances, s)"
  shows "fst (getOwnedTokens sdk c address w) = map coinType allBalances \<and>
         distinct (fst (getOwnedTokens sdk c address w)) = distinct (map coinType allBalances) \<and>
         (\<forall>b \<in> set allBalances. totalBalance b = 0 \<longrightarrow>
            coinType b \<in> set (fst (getOwnedTokens sdk c address w)))"
  using assms by (simp add: getOwnedTokens_def client_getAllBalances_def)

theorem getOwnedTokens_lists_every_entry_witness:
  "fst (getOwnedTokens (script_sdk (Inr balances_demo) refuse refuse) (SuiClient SUI_RPC_URL) ''0x1'' w0)
     = [''0x2::sui::SUI'', ''0xa::navx::NAVX'', ''0x2::sui::SUI'']"
  using getOwnedTokens_lists_every_entry
    [of "script_sdk (Inr balances_demo) refuse refuse" "SuiClient SUI_RPC_URL" "''0x1''" w0
        balances_demo "Suc 0"]
  by (simp add: w0_def balances_demo_def)

theorem getOwnedTokens_counterexample:
  "\<not> distinct (fst (getOwnedTokens (script_sdk (Inr balances_demo) refuse refuse)
                      (SuiClient SUI_RPC_URL) ''0x1'' w0)) \<and>
   ''0xa::navx::NAVX'' \<in> set (fst (getOwnedTokens (script_sdk (Inr balances_demo) refuse refuse)
                      (SuiClient SUI_RPC_URL) ''0x1'' w0)) \<and>
   map totalBalance (filter (\<lambda>b. coinType b = ''0xa::navx::NAVX'') balances_demo) = [0]"
  by (simp add: getOwnedTokens_def client_getAllBalances_def w0_def balances_demo_def)

section \<open>Failures of the remote calls in the Listers\<close>

text \<open>
  Claim C4. When \<^verbatim>\<open>getAllBalances\<close> throws, \<^verbatim>\<open>getOwnedTokens\<close> returns the empty list.
  When a \<^verbatim>\<open>getCoins\<close> call of a run of \<^verbatim>\<open>getAllTokenObjectIds\<close> throws, the result is
  the empty list, whatever the pages before it held; and a failing answer anywhere in the
  dialogue means that the function does return. The result type has no error: nothing is
  propagated.
\<close>

theorem listers_return_empty_on_failure:
  "(\<forall>e s. getAllBalances sdk c a (remote w) = (Inl e, s) \<longrightarrow>
       fst (getOwnedTokens sdk c a w) = []) \<and>
   (\<forall>ids w'. getAllTokenObjectIds sdk c a t w = Some (ids, w') \<longrightarrow>
       list_ex failed_call (new_events w w') \<longrightarrow> ids = []) \<and>
   (\<forall>k e. nth_response sdk c a t None (remote w) k = Inl e \<longrightarrow>
       (\<exists>r. getAllTokenObjectIds sdk c a t w = Some r))"
proof (intro conjI allI impI)
  fix e s assume "getAllBalances sdk c a (remote w) = (Inl e, s)"
  then show "fst (getOwnedTokens sdk c a w) = []"
    by (simp add: getOwnedTokens_def client_getAllBalances_def)
next
  fix ids w'
  assume run: "getAllTokenObjectIds sdk c a t w = Some (ids, w')"
    and bad: "list_ex failed_call (new_events w w')"
  from getAllTokenObjectIds_cases[OF run] obtain evs where
    tr: "trace w' = trace w @ evs" and
    alt: "fetch_post [] evs (Inr ids) \<or>
          (\<exists>e evs0. evs = evs0 @ [ConsoleError (ErrorFetchingCoinObjectIds a e)] \<and>
                     fetch_post [] evs0 (Inl e) \<and> ids = [])"
    by blast
  from tr bad have "list_ex failed_call evs" by simp
  with alt show "ids = []" by (auto simp: fetch_post_def)
next
  fix k e assume "nth_response sdk c a t None (remote w) k = Inl e"
  then have "\<exists>r. fetch_loop sdk c a t True [] None w = Some r"
    by (rule fetch_terminates_failure)
  then show "\<exists>r. getAllTokenObjectIds sdk c a t w = Some r"
    by (rule getAllTokenObjectIds_returns)
qed

theorem listers_return_empty_on_failure_witness:
  "fst (getOwnedTokens (script_sdk (Inl (Error ''timeout'')) failing_pages refuse)
          (SuiClient SUI_RPC_URL) ''0x1'' w0) = [] \<and>
   nth_response (script_sdk (Inl (Error ''timeout'')) failing_pages refuse)
          (SuiClient SUI_RPC_URL) ''0x1'' ''0x2::sui::SUI'' None (remote w0) 1
     = Inl (Error ''timeout'') \<and>
   getAllTokenObjectIds (script_sdk (Inl (Error ''timeout'')) failing_pages refuse)
          (SuiClient SUI_RPC_URL) ''0x1'' ''0x2::sui::SUI'' w0
     = Some ([], \<lparr> remote = 2,
          trace = [CallGetCoins ''0x1'' ''0x2::sui::SUI'' None 50 (failing_pages 0),
                   CallGetCoins ''0x1'' ''0x2::sui::SUI'' (Some ''0xc2'') 50 (Inl (Error ''timeout'')),
                   ConsoleError (ErrorFetchingCoinObjectIds ''0x1'' (Error ''timeout''))] \<rparr>)"
  using listers_return_empty_on_failure
    [of "script_sdk (Inl (Error ''timeout'')) failing_pages refuse" "SuiClient SUI_RPC_URL"
        "''0x1''" w0 "''0x2::sui::SUI''"]
  by (simp add: w0_def failing_pages_def getAllTokenObjectIds_def fetch_loop_True fetch_loop_False
      client_getCoins_def emit_def console_error_def coins_def)

section \<open>The cap of the Object Lister\<close>

text \<open>
  Claim C1, as the code has it. In a run of \<^verbatim>\<open>getAllTokenObjectIds\<close> without a failed call
  the result is the ids of all pages fetched, in order. A further page is fetched only
  after a page that announced one and left the total under 5000; the last page fetched
  either brought the total to 5000 or more or announced no next page. The last page is
  appended whole: the result has fewer than 5000 plus the size of that page ids, so at
  most 5049 when no page holds more than the 50 asked for, and it can exceed 5000.
\<close>

theorem getAllTokenObjectIds_cap:
  assumes "getAllTokenObjectIds sdk c a t w = Some (ids, w')"
    and "\<not> list_ex failed_call (new_events w w')"
  shows "pages_of (new_events w w') \<noteq> [] \<and>
         ids = ids_of (pages_of (new_events w w')) \<and>
         (\<forall>p \<in> set (butlast (pages_of (new_events w w'))). hasNextPage p) \<and>
         length (ids_of (butlast (pages_of (new_events w w')))) < 5000 \<and>
         (5000 \<le> length ids \<or> \<not> hasNextPage (last (pages_of (new_events w w')))) \<and>
         length ids < 5000 + length (data (last (pages_of (new_events w w')))) \<and>
         ((\<forall>p \<in> set (pages_of (new_events w w')). length (data p) \<le> 50) \<longrightarrow> length ids \<le> 5049)"
proof -
  from getAllTokenObjectIds_cases[OF assms(1)] obtain evs where
    tr: "trace w' = trace w @ evs" and
    alt: "fetch_post [] evs (Inr ids) \<or>
          (\<exists>e evs0. evs = evs0 @ [ConsoleError (ErrorFetchingCoinObjectIds a e)] \<and>
                     fetch_post [] evs0 (Inl e) \<and> ids = [])"
    by blast
  from tr have ne: "new_events w w' = evs" by simp
  have post: "fetch_post [] evs (Inr ids)"
  proof (rule disjE[OF alt])
    assume "\<exists>e evs0. evs = evs0 @ [ConsoleError (ErrorFetchingCoinObjectIds a e)] \<and>
                     fetch_post [] evs0 (Inl e) \<and> ids = []"
    then obtain e evs0 where "evs = evs0 @ [ConsoleError (ErrorFetchingCoinObjectIds a e)]"
      "evs0 \<noteq> []" "failed_call (last evs0)" by (auto simp: fetch_post_def)
    then have "list_ex failed_call evs"
      using last_in_set[of evs0] by (auto simp: list_ex_iff)
    with assms(2) ne show ?thesis by simp
  qed
  have bound: "length ids < 5000 + length (data (last (pages_of evs)))"
    using post by (rule fetch_post_bound)
  have "(\<forall>p \<in> set (pages_of evs). length (data p) \<le> 50) \<longrightarrow> length ids \<le> 5049"
  proof
    assume a: "\<forall>p \<in> set (pages_of evs). length (data p) \<le> 50"
    from post have "pages_of evs \<noteq> []" by (simp add: fetch_post_def)
    then have "last (pages_of evs) \<in> set (pages_of evs)" by simp
    with a have "length (data (last (pages_of evs))) \<le> 50" by blast
    with bound show "length ids \<le> 5049" by simp
  qed
  with post bound show ?thesis unfolding ne by (auto simp add: fetch_post_def)
qed

theorem getAllTokenObjectIds_cap_witness:
  "getAllTokenObjectIds (script_sdk (Inr []) (\<lambda>k. Inr last_page) refuse) (SuiClient SUI_RPC_URL)
      ''0x1'' ''0x2::sui::SUI'' w0
     = Some ([''0xc1'', ''0xc2''],
          \<lparr> remote = 1, trace = [CallGetCoins ''0x1'' ''0x2::sui::SUI'' None 50 (Inr last_page)] \<rparr>) \<and>
   pages_of (new_events w0
          \<lparr> remote = 1, trace = [CallGetCoins ''0x1'' ''0x2::sui::SUI'' None 50 (Inr last_page)] \<rparr>)
     = [last_page]"
  using getAllTokenObjectIds_cap
    [of "script_sdk (Inr []) (\<lambda>k. Inr last_page) refuse" "SuiClient SUI_RPC_URL" "''0x1''"
        "''0x2::sui::SUI''" w0 "[''0xc1'', ''0xc2'']"
        "\<lparr> remote = 1, trace = [CallGetCoins ''0x1'' ''0x2::sui::SUI'' None 50 (Inr last_page)] \<rparr>"]
  by (simp add: w0_def last_page_def getAllTokenObjectIds_def fetch_loop_True fetch_loop_False
      client_getCoins_def emit_def coins_def new_events_def)

theorem getAllTokenObjectIds_cap_counterexample:
  "map_option (\<lambda>r. length (fst r))
     (getAllTokenObjectIds (script_sdk (Inr []) (\<lambda>k. Inr page49) refuse) (SuiClient SUI_RPC_URL)
        ''0x1'' ''0x2::sui::SUI'' w0) = Some 5047"
proof -
  obtain r w' where "fetch_loop (script_sdk (Inr []) (\<lambda>k. Inr page49) refuse) (SuiClient SUI_RPC_URL)
        ''0x1'' ''0x2::sui::SUI'' True [] None w0 = Some (Inr r, w')" "length r = 5047"
    using page49_run[where k = 0 and acc = "[]" and bals = "Inr []" and execs = refuse
        and c = "SuiClient SUI_RPC_URL" and a = "''0x1''" and t = "''0x2::sui::SUI''"
        and cur = None and w = w0]
    by auto
  then show ?thesis by (simp add: getAllTokenObjectIds_def)
qed

section \<open>Termination of the pagination loop\<close>

text \<open>
  Claim C10. \<^verbatim>\<open>getAllTokenObjectIds\<close> returns when every answer that announces a next page
  holds at least one item, and also when some answer announces no next page. When the
  node answers every request with an empty page that announces a next page, it never
  returns.
\<close>

theorem pagination_termination:
  "((\<forall>k pg. nth_response sdk c a t None (remote w) k = Inr pg \<longrightarrow> hasNextPage pg \<longrightarrow> data pg \<noteq> []) \<or>
    (\<exists>k pg. nth_response sdk c a t None (remote w) k = Inr pg \<and> \<not> hasNextPage pg)
      \<longrightarrow> (\<exists>r. getAllTokenObjectIds sdk c a t w = Some r)) \<and>
   ((\<forall>k. \<exists>pg. nth_response sdk c a t None (remote w) k = Inr pg \<and> hasNextPage pg \<and> data pg = [])
      \<longrightarrow> getAllTokenObjectIds sdk c a t w = None)"
proof (intro conjI impI)
  assume "(\<forall>k pg. nth_response sdk c a t None (remote w) k = Inr pg \<longrightarrow> hasNextPage pg \<longrightarrow> data pg \<noteq> []) \<or>
    (\<exists>k pg. nth_response sdk c a t None (remote w) k = Inr pg \<and> \<not> hasNextPage pg)"
  then have "\<exists>r. fetch_loop sdk c a t True [] None w = Some r"
  proof
    assume "\<forall>k pg. nth_response sdk c a t None (remote w) k = Inr pg \<longrightarrow> hasNextPage pg \<longrightarrow> data pg \<noteq> []"
    then show ?thesis by (intro fetch_terminates_progress) blast
  next
    assume "\<exists>k pg. nth_response sdk c a t None (remote w) k = Inr pg \<and> \<not> hasNextPage pg"
    then show ?thesis using fetch_terminates_last_page by blast
  qed
  then show "\<exists>r. getAllTokenObjectIds sdk c a t w = Some r"
    by (rule getAllTokenObjectIds_returns)
next
  assume forever: "\<forall>k. \<exists>pg. nth_response sdk c a t None (remote w) k = Inr pg \<and> hasNextPage pg \<and> data pg = []"
  have "fetch_loop sdk c a t True [] None w = None"
  proof (cases "fetch_loop sdk c a t True [] None w")
    case None
    then show ?thesis .
  next
    case (Some y)
    from fetch_diverges[OF Some] forever show ?thesis by simp
  qed
  then show "getAllTokenObjectIds sdk c a t w = None"
    by (simp add: getAllTokenObjectIds_def)
qed

theorem pagination_termination_witness:
  "(\<exists>r. getAllTokenObjectIds (script_sdk (Inr []) (\<lambda>k. Inr page49) refuse) (SuiClient SUI_RPC_URL)
          ''0x1'' ''0x2::sui::SUI'' w0 = Some r) \<and>
   (\<exists>r. getAllTokenObjectIds (script_sdk (Inr []) (\<lambda>k. Inr last_page) refuse) (SuiClient SUI_RPC_URL)
          ''0x1'' ''0x2::sui::SUI'' w0 = Some r) \<and>
   getAllTokenObjectIds (script_sdk (Inr []) (\<lambda>k. Inr empty_page) refuse) (SuiClient SUI_RPC_URL)
          ''0x1'' ''0x2::sui::SUI'' w0 = None"
proof -
  have a: "\<forall>k pg. nth_response (script_sdk (Inr []) (\<lambda>k. Inr page49) refuse) (SuiClient SUI_RPC_URL)
             ''0x1'' ''0x2::sui::SUI'' None (remote w0) k = Inr pg \<longrightarrow> hasNextPage pg \<longrightarrow> data pg \<noteq> []"
    by (simp add: nth_response_const page49_def coins_def)
  have b: "\<exists>k pg. nth_response (script_sdk (Inr []) (\<lambda>k. Inr last_page) refuse) (SuiClient SUI_RPC_URL)
             ''0x1'' ''0x2::sui::SUI'' None (remote w0) k = Inr pg \<and> \<not> hasNextPage pg"
    by (simp add: nth_response_const last_page_def)
  have c: "\<forall>k. \<exists>pg. nth_response (script_sdk (Inr []) (\<lambda>k. Inr empty_page) refuse) (SuiClient SUI_RPC_URL)
             ''0x1'' ''0x2::sui::SUI'' None (remote w0) k = Inr pg \<and> hasNextPage pg \<and> data pg = []"
    by (simp add: nth_response_const empty_page_def)
  show ?thesis
    using pagination_termination[of "script_sdk (Inr []) (\<lambda>k. Inr page49) refuse" "SuiClient SUI_RPC_URL"
             "''0x1''" "''0x2::sui::SUI''" w0] a
          pagination_termination[of "script_sdk (Inr []) (\<lambda>k. Inr last_page) refuse" "SuiClient SUI_RPC_URL"
             "''0x1''" "''0x2::sui::SUI''" w0] b
          pagination_termination[of "script_sdk (Inr []) (\<lambda>k. Inr empty_page) refuse" "SuiClient SUI_RPC_URL"
             "''0x1''" "''0x2::sui::SUI''" w0] c
    by blast
qed

section \<open>Batches and their transactions\<close>

text \<open>
  Claim C7. For a positive batch size \<open>B\<close>, take the partition of the fetched ids into
  contiguous batches of at most \<open>B\<close>: the batches concatenate to the fetched sequence, none
  is empty, and all but the last hold exactly \<open>B\<close> ids. \<^verbatim>\<open>mergeCoinObjects\<close> returns, and the
  transactions it has submitted are, in order, those of the batches of two or more, each
  merging every id of its batch but the first into the first: all of them when the call
  succeeds, which it does when no submission throws, and otherwise those up to the
  submission that threw.
\<close>

theorem merge_batches:
  assumes "fromSecretKey sdk pk = Inr kp"
    and "getAllTokenObjectIds sdk (SuiClient rpcUrl) (toSuiAddress sdk kp) t w = Some (ids, w1)"
    and "0 < B"
  shows "\<exists>res w' later. mergeCoinObjects sdk pk t (int B) rpcUrl w = Some (res, w') \<and>
           map (\<lambda>b. map (\<lambda>x. MergeCoins (hd b) [x]) (tl b))
               (filter (\<lambda>b. 1 < length b) (spec_batches B ids))
             = submissions (actions (new_events w1 w')) @ later \<and>
           (res = Inr () \<longrightarrow> later = []) \<and>
           (always_executes sdk \<longrightarrow> res = Inr ()) \<and>
           concat (spec_batches B ids) = ids \<and>
           (\<forall>b \<in> set (spec_batches B ids). b \<noteq> [] \<and> length b \<le> B) \<and>
           (\<forall>b \<in> set (butlast (spec_batches B ids)). length b = B)"
proof -
  from mergeCoinObjects_prefix[OF assms] obtain res w' rest where
    run: "mergeCoinObjects sdk pk t (int B) rpcUrl w = Some (res, w')"
    and ac: "plan (spec_batches B ids) = actions (new_events w1 w') @ rest"
    and fin: "res = Inr () \<longrightarrow> rest = []" by blast
  have "submissions (plan (spec_batches B ids))
          = submissions (actions (new_events w1 w')) @ submissions rest"
    unfolding ac by simp
  then have a: "map (\<lambda>b. map (\<lambda>x. MergeCoins (hd b) [x]) (tl b))
               (filter (\<lambda>b. 1 < length b) (spec_batches B ids))
             = submissions (actions (new_events w1 w')) @ submissions rest"
    unfolding submissions_plan by (simp add: merge_into_first_def[abs_def])
  have b: "res = Inr () \<longrightarrow> submissions rest = []" using fin by simp
  have c: "always_executes sdk \<longrightarrow> res = Inr ()"
    using mergeCoinObjects_run[OF assms] run by auto
  have d: "concat (spec_batches B ids) = ids" using assms(3) by (rule concat_spec_batches)
  have e: "\<forall>b \<in> set (spec_batches B ids). b \<noteq> [] \<and> length b \<le> B"
    using spec_batches_sizes[OF assms(3)] by blast
  have f: "\<forall>b \<in> set (butlast (spec_batches B ids)). length b = B"
    using spec_batches_full[OF assms(3)] by blast
  show ?thesis
  proof (intro exI conjI)
    show "mergeCoinObjects sdk pk t (int B) rpcUrl w = Some (res, w')" by (fact run)
    show "map (\<lambda>b. map (\<lambda>x. MergeCoins (hd b) [x]) (tl b))
               (filter (\<lambda>b. 1 < length b) (spec_batches B ids))
             = submissions (actions (new_events w1 w')) @ submissions rest" by (fact a)
  qed (rule b c d e f)+
qed

section \<open>The number of merge transactions\<close>

text \<open>
  Claim C2, as the code has it. With 0 or 1 fetched ids \<^verbatim>\<open>mergeCoinObjects\<close> returns at once,
  whatever the batch size, and nothing is submitted. With a positive batch size \<open>B\<close> and
  submissions that succeed, the number of transactions submitted is \<open>\<lceil>N / B\<rceil>\<close> minus the
  number of batches of exactly one id. For \<open>B \<ge> 2\<close> there is at most one such batch and it
  can only be the last; for \<open>B = 1\<close> every batch is one, there are \<open>N\<close> of them, and nothing
  is submitted.
\<close>

theorem merge_transaction_count:
  assumes "fromSecretKey sdk pk = Inr kp"
    and "getAllTokenObjectIds sdk (SuiClient rpcUrl) (toSuiAddress sdk kp) t w = Some (ids, w1)"
  shows "(length ids \<le> 1 \<longrightarrow>
            mergeCoinObjects sdk pk t batchSize rpcUrl w
              = Some (Inr (), console_log NoCoinsNeedMerge w1)) \<and>
         (0 < B \<and> always_executes sdk \<longrightarrow>
            (\<exists>w'. mergeCoinObjects sdk pk t (int B) rpcUrl w = Some (Inr (), w') \<and>
               int (length (submissions (actions (new_events w1 w'))))
                 = \<lceil>real (length ids) / real B\<rceil>
                   - int (length (filter (\<lambda>b. length b = 1) (spec_batches B ids))))) \<and>
         (2 \<le> B \<longrightarrow>
            length (filter (\<lambda>b. length b = 1) (spec_batches B ids)) \<le> 1 \<and>
            (\<forall>b \<in> set (butlast (spec_batches B ids)). length b \<noteq> 1)) \<and>
         (B = 1 \<longrightarrow> length (filter (\<lambda>b. length b = 1) (spec_batches B ids)) = length ids)"
proof (intro conjI impI)
  assume "length ids \<le> 1"
  with assms show "mergeCoinObjects sdk pk t batchSize rpcUrl w
              = Some (Inr (), console_log NoCoinsNeedMerge w1)"
    by (rule mergeCoinObjects_short)
next
  assume h: "0 < B \<and> always_executes sdk"
  then have B: "0 < B" and ok: "always_executes sdk" by simp_all
  from mergeCoinObjects_run[OF assms B ok] obtain w' where
    run: "mergeCoinObjects sdk pk t (int B) rpcUrl w = Some (Inr (), w')"
    and ac: "actions (new_events w1 w') = plan (spec_batches B ids)" by blast
  let ?bs = "spec_batches B ids"
  have "length (filter (\<lambda>b. 1 < length b) ?bs) + length (filter (\<lambda>b. length b = 1) ?bs)
          = length ?bs"
    using spec_batches_sizes[OF B] by (intro count_split) blast
  moreover have "int (length ?bs) = \<lceil>real (length ids) / real B\<rceil>"
    using length_spec_batches[OF B, of ids] ceiling_div_nat[OF B, of "length ids"] by simp
  ultimately have "int (length (submissions (actions (new_events w1 w'))))
      = \<lceil>real (length ids) / real B\<rceil> - int (length (filter (\<lambda>b. length b = 1) ?bs))"
    unfolding ac submissions_plan by simp
  with run show "\<exists>w'. mergeCoinObjects sdk pk t (int B) rpcUrl w = Some (Inr (), w') \<and>
               int (length (submissions (actions (new_events w1 w'))))
                 = \<lceil>real (length ids) / real B\<rceil>
                   - int (length (filter (\<lambda>b. length b = 1) (spec_batches B ids)))"
    by blast
next
  assume "2 \<le> B"
  then show "length (filter (\<lambda>b. length b = 1) (spec_batches B ids)) \<le> 1"
    using singles_last by blast
next
  assume "2 \<le> B"
  then show "\<forall>b \<in> set (butlast (spec_batches B ids)). length b \<noteq> 1"
    using singles_last by blast
next
  assume B1: "B = 1"
  have "filter (\<lambda>b. length b = 1) (spec_batches 1 ids) = spec_batches 1 ids"
    using singles_all[of _ ids] by (auto simp add: filter_id_conv)
  with B1 show "length (filter (\<lambda>b. length b = 1) (spec_batches B ids)) = length ids"
    by (simp add: length_spec_batches)
qed

theorem merge_batches_witness:
  "\<exists>w'. mergeCoinObjects demo_sdk ''6b'' ''0x2::sui::SUI'' 2 SUI_RPC_URL w0 = Some (Inr (), w') \<and>
         submissions (actions (new_events listed w')) = [[MergeCoins ''0xc1'' [''0xc2'']]]"
  using merge_batches[OF demo_key demo_list, of 2] always_executes_demo
  by (auto simp add: spec_batches_demo)

theorem merge_transaction_count_witness:
  "(\<exists>w'. mergeCoinObjects demo_sdk ''6b'' ''0x2::sui::SUI'' 2 SUI_RPC_URL w0 = Some (Inr (), w') \<and>
         int (length (submissions (actions (new_events listed w')))) = \<lceil>3 / 2 :: real\<rceil> - 1) \<and>
   length (filter (\<lambda>b. length b = 1) (spec_batches 1 [''0xc1'', ''0xc2'', ''0xc3''])) = 3 \<and>
   mergeCoinObjects (script_sdk (Inr []) refuse accept) ''6b'' ''0x2::sui::SUI'' 500 SUI_RPC_URL w0
     = Some (Inr (),
         \<lparr> remote = 1,
           trace = [CallGetCoins ''0x6b'' ''0x2::sui::SUI'' None 50 (Inl (Error ''unavailable'')),
                    ConsoleError (ErrorFetchingCoinObjectIds ''0x6b'' (Error ''unavailable'')),
                    ConsoleLog NoCoinsNeedMerge] \<rparr>)"
proof -
  have a: "\<exists>w'. mergeCoinObjects demo_sdk ''6b'' ''0x2::sui::SUI'' 2 SUI_RPC_URL w0 = Some (Inr (), w') \<and>
         int (length (submissions (actions (new_events listed w')))) = \<lceil>3 / 2 :: real\<rceil> - 1"
    using merge_transaction_count[OF demo_key demo_list, of 2 2] always_executes_demo
    by (simp add: spec_batches_demo)
  have b: "length (filter (\<lambda>b. length b = 1) (spec_batches 1 [''0xc1'', ''0xc2'', ''0xc3''])) = 3"
    using merge_transaction_count[OF demo_key demo_list, of 2 1] by simp
  have key: "fromSecretKey (script_sdk (Inr []) refuse accept) ''6b'' = Inr (Ed25519Keypair ''6b'')"
    by simp
  have list: "getAllTokenObjectIds (script_sdk (Inr []) refuse accept) (SuiClient SUI_RPC_URL)
       (toSuiAddress (script_sdk (Inr []) refuse accept) (Ed25519Keypair ''6b'')) ''0x2::sui::SUI'' w0
     = Some ([], \<lparr> remote = 1,
           trace = [CallGetCoins ''0x6b'' ''0x2::sui::SUI'' None 50 (Inl (Error ''unavailable'')),
                    ConsoleError (ErrorFetchingCoinObjectIds ''0x6b'' (Error ''unavailable''))] \<rparr>)"
    by (simp add: getAllTokenObjectIds_def fetch_loop_True client_getCoins_def refuse_def
        w0_def emit_def console_error_def)
  have c: "mergeCoinObjects (script_sdk (Inr []) refuse accept) ''6b'' ''0x2::sui::SUI'' 500 SUI_RPC_URL w0
     = Some (Inr (),
         \<lparr> remote = 1,
           trace = [CallGetCoins ''0x6b'' ''0x2::sui::SUI'' None 50 (Inl (Error ''unavailable'')),
                    ConsoleError (ErrorFetchingCoinObjectIds ''0x6b'' (Error ''unavailable'')),
                    ConsoleLog NoCoinsNeedMerge] \<rparr>)"
    using merge_transaction_count[OF key list, of 500 500]
    by (simp add: console_log_def emit_def)
  from a b c show ?thesis by blast
qed

theorem merge_transaction_count_counterexample:
  "map length [slice [''0xc1'', ''0xc2''] 0 (min (0 + 1) 2), slice [''0xc1'', ''0xc2''] 1 (min (1 + 1) 2)]
     = [1, 1] \<and>
   length (filter (\<lambda>b. length b = 1) (spec_batches 1 [''0xc1'', ''0xc2''])) = 2 \<and>
   map_option (\<lambda>r. (fst r, actions (trace (snd r))))
     (mergeCoinObjects (script_sdk (Inr []) (\<lambda>k. Inr last_page) accept) ''6b'' ''0x2::sui::SUI'' 1
        SUI_RPC_URL w0) = Some (Inr (), [])"
  by (simp add: slice_def spec_batches_step mergeCoinObjects_def merge_try_def
      getAllTokenObjectIds_def fetch_loop_True fetch_loop_False client_getCoins_def
      merge_loop_skip merge_loop_done Let_def last_page_def coins_def w0_def
      console_log_def emit_def)

section \<open>The pauses between submissions\<close>

text \<open>
  Claim C6, as the code has it. With a positive batch size and submissions that succeed,
  \<^verbatim>\<open>mergeCoinObjects\<close> submits the batches of two or more in order and, after a submission,
  pauses for 1000 ms exactly when a further batch remains, whether or not that batch will
  be submitted: there is one pause for each submitted batch that is not the last batch.
  For 1200 ids and batch size 500 that is three submissions with a pause after the first
  and after the second.
\<close>

theorem merge_pauses:
  assumes "fromSecretKey sdk pk = Inr kp"
    and "getAllTokenObjectIds sdk (SuiClient rpcUrl) (toSuiAddress sdk kp) t w = Some (ids, w1)"
    and "0 < B" and "always_executes sdk"
  shows "\<exists>w'. mergeCoinObjects sdk pk t (int B) rpcUrl w = Some (Inr (), w') \<and>
           actions (new_events w1 w') = plan (spec_batches B ids) \<and>
           pauses (actions (new_events w1 w'))
             = replicate (length (filter (\<lambda>b. 1 < length b) (butlast (spec_batches B ids)))) 1000 \<and>
           (length ids = 1200 \<and> B = 500 \<longrightarrow>
              actions (new_events w1 w')
                = [Submit (merge_into_first (take 500 ids)), Pause 1000,
                   Submit (merge_into_first (take 500 (drop 500 ids))), Pause 1000,
                   Submit (merge_into_first (drop 1000 ids))])"
proof -
  from mergeCoinObjects_run[OF assms] obtain w' where
    run: "mergeCoinObjects sdk pk t (int B) rpcUrl w = Some (Inr (), w')"
    and ac: "actions (new_events w1 w') = plan (spec_batches B ids)" by blast
  have "pauses (actions (new_events w1 w'))
          = replicate (length (filter (\<lambda>b. 1 < length b) (butlast (spec_batches B ids)))) 1000"
    unfolding ac by (rule pauses_plan)
  moreover have "length ids = 1200 \<and> B = 500 \<longrightarrow>
              actions (new_events w1 w')
                = [Submit (merge_into_first (take 500 ids)), Pause 1000,
                   Submit (merge_into_first (take 500 (drop 500 ids))), Pause 1000,
                   Submit (merge_into_first (drop 1000 ids))]"
    unfolding ac by (auto simp: spec_batches_1200)
  ultimately show ?thesis using run ac by blast
qed

theorem merge_pauses_witness:
  "(\<exists>w'. mergeCoinObjects demo_sdk ''6b'' ''0x2::sui::SUI'' 2 SUI_RPC_URL w0 = Some (Inr (), w') \<and>
         actions (new_events listed w') = [Submit [MergeCoins ''0xc1'' [''0xc2'']], Pause 1000]) \<and>
   (\<exists>ids w1 w'.
      getAllTokenObjectIds big_sdk (SuiClient SUI_RPC_URL) ''0x6b'' ''0x2::sui::SUI'' w0
        = Some (ids, w1) \<and> length ids = 1200 \<and>
      mergeCoinObjects big_sdk ''6b'' ''0x2::sui::SUI'' 500 SUI_RPC_URL w0 = Some (Inr (), w') \<and>
      length (submissions (actions (new_events w1 w'))) = 3 \<and>
      pauses (actions (new_events w1 w')) = [1000, 1000])"
proof
  show "\<exists>w'. mergeCoinObjects demo_sdk ''6b'' ''0x2::sui::SUI'' 2 SUI_RPC_URL w0 = Some (Inr (), w') \<and>
         actions (new_events listed w') = [Submit [MergeCoins ''0xc1'' [''0xc2'']], Pause 1000]"
    using merge_pauses[OF demo_key demo_list _ always_executes_demo, of 2]
    by (auto simp add: spec_batches_demo merge_into_first_def)
  have addr: "toSuiAddress big_sdk (Ed25519Keypair ''6b'') = ''0x6b''" by (simp add: big_sdk_def)
  obtain ids w1 where list: "getAllTokenObjectIds big_sdk (SuiClient SUI_RPC_URL)
        (toSuiAddress big_sdk (Ed25519Keypair ''6b'')) ''0x2::sui::SUI'' w0 = Some (ids, w1)"
    and len: "length ids = 1200"
    using big_list by blast
  from merge_pauses[OF big_key list _ always_executes_big, of 500] len obtain w' where
    run: "mergeCoinObjects big_sdk ''6b'' ''0x2::sui::SUI'' 500 SUI_RPC_URL w0 = Some (Inr (), w')"
    and ac: "actions (new_events w1 w')
                = [Submit (merge_into_first (take 500 ids)), Pause 1000,
                   Submit (merge_into_first (take 500 (drop 500 ids))), Pause 1000,
                   Submit (merge_into_first (drop 1000 ids))]"
    by auto
  have "length (submissions (actions (new_events w1 w'))) = 3"
    "pauses (actions (new_events w1 w')) = [1000, 1000]"
    unfolding ac by simp_all
  with list len run addr
  show "\<exists>ids w1 w'.
      getAllTokenObjectIds big_sdk (SuiClient SUI_RPC_URL) ''0x6b'' ''0x2::sui::SUI'' w0
        = Some (ids, w1) \<and> length ids = 1200 \<and>
      mergeCoinObjects big_sdk ''6b'' ''0x2::sui::SUI'' 500 SUI_RPC_URL w0 = Some (Inr (), w') \<and>
      length (submissions (actions (new_events w1 w'))) = 3 \<and>
      pauses (actions (new_events w1 w')) = [1000, 1000]"
    by auto
qed

theorem merge_pauses_counterexample:
  "map_option (\<lambda>r. actions (trace (snd r)))
     (mergeCoinObjects demo_sdk ''6b'' ''0x2::sui::SUI'' 2 SUI_RPC_URL w0)
     = Some [Submit [MergeCoins ''0xc1'' [''0xc2'']], Pause 1000]"
proof -
  have "mergeCoinObjects demo_sdk ''6b'' ''0x2::sui::SUI'' 2 SUI_RPC_URL w0 =
     (case merge_loop demo_sdk (SuiClient SUI_RPC_URL) (Ed25519Keypair ''6b'')
             [''0xc1'', ''0xc2'', ''0xc3''] 2 0
             (console_log (FoundObjects (length [''0xc1'', ''0xc2'', ''0xc3'']) ''0x2::sui::SUI'') listed) of
        None \<Rightarrow> None
      | Some (Inl e, w3) \<Rightarrow> Some (Inl e, console_error (ErrorMergingCoins e) w3)
      | Some (Inr u, w3) \<Rightarrow> Some (Inr (), console_log AllMerged w3))"
    by (rule mergeCoinObjects_long[OF demo_key demo_list]) simp
  then show ?thesis
    by (simp add: merge_loop_submit merge_loop_skip merge_loop_done slice_def Let_def
        build_merge_eq merge_into_first_def listed_def demo_sdk_def accept_def console_log_def
        sleep_def emit_def)
qed

section \<open>Termination of the batching loop\<close>

text \<open>
  Claim C9. For a positive batch size the batching loop returns, from every index, on
  every list of ids, whatever the node answers. For batch size 0 and two or more ids the
  index stays where it is and the loop never returns, and neither does
  \<^verbatim>\<open>mergeCoinObjects\<close> once the Object Lister has returned these ids.
\<close>

theorem batching_loop_termination:
  "(0 < batchSize \<longrightarrow> (\<exists>r. merge_loop sdk c kp ids batchSize i w = Some r)) \<and>
   (2 \<le> length ids \<longrightarrow> merge_loop sdk c kp ids 0 0 w = None) \<and>
   (fromSecretKey sdk pk = Inr kp \<and>
    getAllTokenObjectIds sdk (SuiClient rpcUrl) (toSuiAddress sdk kp) t w = Some (ids, w1) \<and>
    2 \<le> length ids \<longrightarrow> mergeCoinObjects sdk pk t 0 rpcUrl w = None)"
proof -
  have div: "merge_loop sdk c kp ids 0 0 w = None" if "2 \<le> length ids" for c w
  proof (cases "merge_loop sdk c kp ids 0 0 w")
    case None
    then show ?thesis .
  next
    case (Some y)
    from that have "0 < int (length ids)" by auto
    from merge_loop_diverges[OF Some refl _ this] show ?thesis by simp
  qed
  have "mergeCoinObjects sdk pk t 0 rpcUrl w = None"
    if "fromSecretKey sdk pk = Inr kp"
      "getAllTokenObjectIds sdk (SuiClient rpcUrl) (toSuiAddress sdk kp) t w = Some (ids, w1)"
      "2 \<le> length ids"
    using mergeCoinObjects_long[OF that(1,2), of 0] that(3) div[OF that(3)] by simp
  with div merge_loop_terminates show ?thesis by blast
qed

theorem batching_loop_termination_witness:
  "(\<exists>r. merge_loop demo_sdk (SuiClient SUI_RPC_URL) (Ed25519Keypair ''6b'')
           [''0xc1'', ''0xc2'', ''0xc3''] 2 0 listed = Some r) \<and>
   merge_loop demo_sdk (SuiClient SUI_RPC_URL) (Ed25519Keypair ''6b'')
           [''0xc1'', ''0xc2'', ''0xc3''] 0 0 listed = None \<and>
   mergeCoinObjects demo_sdk ''6b'' ''0x2::sui::SUI'' 0 SUI_RPC_URL w0 = None"
  using batching_loop_termination[of 2 demo_sdk "SuiClient SUI_RPC_URL" "Ed25519Keypair ''6b''"
      "[''0xc1'', ''0xc2'', ''0xc3'']" 0 listed "''6b''" SUI_RPC_URL "''0x2::sui::SUI''" ]
    batching_loop_termination[of 2 demo_sdk "SuiClient SUI_RPC_URL" "Ed25519Keypair ''6b''"
      "[''0xc1'', ''0xc2'', ''0xc3'']" 0 w0 "''6b''" SUI_RPC_URL "''0x2::sui::SUI''" listed]
    demo_key demo_list
  by simp

section \<open>Errors in the Batch Merger\<close>

text \<open>
  Claim C5, as the code has it. When the key cannot be turned into a keypair,
  \<^verbatim>\<open>mergeCoinObjects\<close> logs the error and fails with it. In every run that returns: an error
  thrown by the sign and submit step is the error the call fails with; and when the call
  fails with \<open>e\<close>, its last act was to log \<open>e\<close>, and \<open>e\<close> was thrown by the key derivation or
  by a submission, the only one of the run that threw. A throw of the listing step is not
  propagated: when a \<^verbatim>\<open>getCoins\<close> call fails, \<^verbatim>\<open>getAllTokenObjectIds\<close> returns, and
  \<^verbatim>\<open>mergeCoinObjects\<close> logs that no coins need to be merged and returns normally; a run
  that holds a failed \<^verbatim>\<open>getCoins\<close> call never fails.
\<close>

theorem mergeCoinObjects_propagates:
  "(\<forall>e. fromSecretKey sdk pk = Inl e \<longrightarrow>
       mergeCoinObjects sdk pk t batchSize rpcUrl w
         = Some (Inl e, console_error (ErrorMergingCoins e) w)) \<and>
   (\<forall>kp ids w1. fromSecretKey sdk pk = Inr kp \<longrightarrow>
       getAllTokenObjectIds sdk (SuiClient rpcUrl) (toSuiAddress sdk kp) t w = Some (ids, w1) \<longrightarrow>
       list_ex failed_call (new_events w w1) \<longrightarrow>
       mergeCoinObjects sdk pk t batchSize rpcUrl w
         = Some (Inr (), console_log NoCoinsNeedMerge w1)) \<and>
   (\<forall>res w'. mergeCoinObjects sdk pk t batchSize rpcUrl w = Some (res, w') \<longrightarrow>
       (\<forall>e. e \<in> set (submit_errors (new_events w w')) \<longrightarrow> res = Inl e) \<and>
       (list_ex failed_call (new_events w w') \<longrightarrow> res = Inr ()) \<and>
       (\<forall>e. res = Inl e \<longrightarrow>
            last (trace w') = ConsoleError (ErrorMergingCoins e) \<and>
            (fromSecretKey sdk pk = Inl e \<or> submit_errors (new_events w w') = [e])))"
proof (intro conjI allI impI)
  fix e assume "fromSecretKey sdk pk = Inl e"
  then show "mergeCoinObjects sdk pk t batchSize rpcUrl w
         = Some (Inl e, console_error (ErrorMergingCoins e) w)"
    by (rule mergeCoinObjects_key_failure)
next
  fix kp ids w1
  assume key: "fromSecretKey sdk pk = Inr kp"
    and list: "getAllTokenObjectIds sdk (SuiClient rpcUrl) (toSuiAddress sdk kp) t w = Some (ids, w1)"
    and bad: "list_ex failed_call (new_events w w1)"
  from getAllTokenObjectIds_quiet[OF list] obtain evs where
    tr: "trace w1 = trace w @ evs" by blast
  have "ids = []"
  proof (rule ccontr)
    assume "ids \<noteq> []"
    with list tr have "\<not> list_ex failed_call evs" by (rule getAllTokenObjectIds_clean)
    with tr bad show False by simp
  qed
  then have "length ids \<le> 1" by simp
  with key list show "mergeCoinObjects sdk pk t batchSize rpcUrl w
         = Some (Inr (), console_log NoCoinsNeedMerge w1)"
    by (rule mergeCoinObjects_short)
next
  fix res w' e
  assume run: "mergeCoinObjects sdk pk t batchSize rpcUrl w = Some (res, w')"
    and e: "e \<in> set (submit_errors (new_events w w'))"
  from mergeCoinObjects_outcome[OF run] obtain evs where
    tr: "trace w' = trace w @ evs" and post: "call_post sdk pk evs res" by blast
  from tr e have "e \<in> set (submit_errors evs)" by simp
  with post show "res = Inl e" by (cases res) (auto simp: call_post_def)
next
  fix res w'
  assume run: "mergeCoinObjects sdk pk t batchSize rpcUrl w = Some (res, w')"
    and bad: "list_ex failed_call (new_events w w')"
  from mergeCoinObjects_outcome[OF run] obtain evs where
    tr: "trace w' = trace w @ evs" and post: "call_post sdk pk evs res" by blast
  from tr bad have "list_ex failed_call evs" by simp
  with post show "res = Inr ()" by (cases res) (auto simp: call_post_def)
next
  fix res w' e
  assume run: "mergeCoinObjects sdk pk t batchSize rpcUrl w = Some (res, w')"
    and res: "res = Inl e"
  from mergeCoinObjects_outcome[OF run] obtain evs where
    tr: "trace w' = trace w @ evs" and post: "call_post sdk pk evs res" by blast
  from post res have "evs \<noteq> []" "last evs = ConsoleError (ErrorMergingCoins e)"
    by (simp_all add: call_post_def)
  with tr show "last (trace w') = ConsoleError (ErrorMergingCoins e)" by simp
next
  fix res w' e
  assume run: "mergeCoinObjects sdk pk t batchSize rpcUrl w = Some (res, w')"
    and res: "res = Inl e"
  from mergeCoinObjects_outcome[OF run] obtain evs where
    tr: "trace w' = trace w @ evs" and post: "call_post sdk pk evs res" by blast
  from tr have "new_events w w' = evs" by simp
  with post res show "fromSecretKey sdk pk = Inl e \<or> submit_errors (new_events w w') = [e]"
    by (auto simp: call_post_def)
qed

theorem mergeCoinObjects_propagates_witness:
  "mergeCoinObjects rejecting_sdk ''6b'' ''0x2::sui::SUI'' 2 SUI_RPC_URL w0
     = Some (Inl (Error ''unavailable''),
         \<lparr> remote = 2,
           trace = [CallGetCoins ''0x6b'' ''0x2::sui::SUI'' None 50 (Inr three_coins),
                    ConsoleLog (FoundObjects 3 ''0x2::sui::SUI''),
                    CallSignAndExecute [MergeCoins ''0xc1'' [''0xc2'']] (Ed25519Keypair ''6b'')
                      (Inl (Error ''unavailable'')),
                    ConsoleError (ErrorMergingCoins (Error ''unavailable''))] \<rparr>) \<and>
   mergeCoinObjects keyless_sdk ''6b'' ''0x2::sui::SUI'' 2 SUI_RPC_URL w0
     = Some (Inl (Error ''bad key''),
         \<lparr> remote = 0, trace = [ConsoleError (ErrorMergingCoins (Error ''bad key''))] \<rparr>) \<and>
   mergeCoinObjects (script_sdk (Inr []) refuse refuse) ''6b'' ''0x2::sui::SUI'' 2 SUI_RPC_URL w0
     = Some (Inr (),
         \<lparr> remote = 1,
           trace = [CallGetCoins ''0x6b'' ''0x2::sui::SUI'' None 50 (Inl (Error ''unavailable'')),
                    ConsoleError (ErrorFetchingCoinObjectIds ''0x6b'' (Error ''unavailable'')),
                    ConsoleLog NoCoinsNeedMerge] \<rparr>)"
proof (intro conjI)
  show "mergeCoinObjects rejecting_sdk ''6b'' ''0x2::sui::SUI'' 2 SUI_RPC_URL w0
     = Some (Inl (Error ''unavailable''),
         \<lparr> remote = 2,
           trace = [CallGetCoins ''0x6b'' ''0x2::sui::SUI'' None 50 (Inr three_coins),
                    ConsoleLog (FoundObjects 3 ''0x2::sui::SUI''),
                    CallSignAndExecute [MergeCoins ''0xc1'' [''0xc2'']] (Ed25519Keypair ''6b'')
                      (Inl (Error ''unavailable'')),
                    ConsoleError (ErrorMergingCoins (Error ''unavailable''))] \<rparr>)"
    using mergeCoinObjects_propagates[of rejecting_sdk "''6b''" "''0x2::sui::SUI''" 2 SUI_RPC_URL w0]
    by (simp add: rejecting_sdk_def mergeCoinObjects_def merge_try_def getAllTokenObjectIds_def
      fetch_loop_True fetch_loop_False client_getCoins_def merge_loop_submit slice_def Let_def
      build_merge_eq merge_into_first_def three_coins_def coins_def w0_def refuse_def
      console_log_def console_error_def emit_def)
  have "fromSecretKey keyless_sdk ''6b'' = Inl (Error ''bad key'')"
    by (simp add: keyless_sdk_def)
  with mergeCoinObjects_propagates[of keyless_sdk "''6b''" "''0x2::sui::SUI''" 2 SUI_RPC_URL w0]
  show "mergeCoinObjects keyless_sdk ''6b'' ''0x2::sui::SUI'' 2 SUI_RPC_URL w0
     = Some (Inl (Error ''bad key''),
         \<lparr> remote = 0, trace = [ConsoleError (ErrorMergingCoins (Error ''bad key''))] \<rparr>)"
    by (simp add: w0_def console_error_def emit_def)
  let ?w1 = "\<lparr> remote = 1,
           trace = [CallGetCoins ''0x6b'' ''0x2::sui::SUI'' None 50 (Inl (Error ''unavailable'')),
                    ConsoleError (ErrorFetchingCoinObjectIds ''0x6b'' (Error ''unavailable''))] \<rparr>"
  have key: "fromSecretKey (script_sdk (Inr []) refuse refuse) ''6b'' = Inr (Ed25519Keypair ''6b'')"
    by simp
  have list: "getAllTokenObjectIds (script_sdk (Inr []) refuse refuse) (SuiClient SUI_RPC_URL)
       (toSuiAddress (script_sdk (Inr []) refuse refuse) (Ed25519Keypair ''6b'')) ''0x2::sui::SUI'' w0
     = Some ([], ?w1)"
    by (simp add: getAllTokenObjectIds_def fetch_loop_True client_getCoins_def refuse_def
        w0_def emit_def console_error_def)
  have bad: "list_ex failed_call (new_events w0 ?w1)"
    by (simp add: new_events_def w0_def)
  from mergeCoinObjects_propagates[of "script_sdk (Inr []) refuse refuse" "''6b''"
      "''0x2::sui::SUI''" 2 SUI_RPC_URL w0] key list bad
  show "mergeCoinObjects (script_sdk (Inr []) refuse refuse) ''6b'' ''0x2::sui::SUI'' 2 SUI_RPC_URL w0
     = Some (Inr (),
         \<lparr> remote = 1,
           trace = [CallGetCoins ''0x6b'' ''0x2::sui::SUI'' None 50 (Inl (Error ''unavailable'')),
                    ConsoleError (ErrorFetchingCoinObjectIds ''0x6b'' (Error ''unavailable'')),
                    ConsoleLog NoCoinsNeedMerge] \<rparr>)"
    by (simp add: console_log_def emit_def)
qed

theorem mergeCoinObjects_listing_counterexample:
  "mergeCoinObjects (script_sdk (Inr []) failing_pages accept) ''6b'' ''0x2::sui::SUI'' 500
       SUI_RPC_URL w0
     = Some (Inr (),
         \<lparr> remote = 2,
           trace = [CallGetCoins ''0x6b'' ''0x2::sui::SUI'' None 50 (failing_pages 0),
                    CallGetCoins ''0x6b'' ''0x2::sui::SUI'' (Some ''0xc2'') 50 (Inl (Error ''timeout'')),
                    ConsoleError (ErrorFetchingCoinObjectIds ''0x6b'' (Error ''timeout'')),
                    ConsoleLog NoCoinsNeedMerge] \<rparr>)"
  by (simp add: mergeCoinObjects_def merge_try_def getAllTokenObjectIds_def fetch_loop_True
      fetch_loop_False client_getCoins_def failing_pages_def coins_def w0_def Let_def
      console_log_def console_error_def emit_def)

section \<open>The Driver and the exit status\<close>

text \<open>
  Claim C3, as the code has it. Every run of the program that ends, ends with exit
  status 0: when \<^verbatim>\<open>main\<close> settles, rejected or fulfilled, the top-level promise is
  fulfilled. In particular the status is 0 on normal completion: when no token type is
  found, and when every call of \<^verbatim>\<open>mergeCoinObjects\<close> returns, also with nothing to merge.
  When \<^verbatim>\<open>mergeCoinObjects\<close> fails for a token type in the Driver loop, \<^verbatim>\<open>main\<close> is rejected
  with that error in the world that the failed call left, so that no further token type
  is processed; the handler of the last line logs the error, and the status is 0 as well.
  A run that does not end has no exit status.
\<close>

theorem driver_stops_at_first_failure:
  "(\<forall>r. main sdk env w = Some r \<longrightarrow>
       map_option (\<lambda>r. exit_code (fst r)) (top_level sdk env w) = Some 0) \<and>
   (main sdk env w = None \<longrightarrow> top_level sdk env w = None) \<and>
   (\<forall>w'. main sdk env w = Some (Inr (), w') \<longrightarrow> top_level sdk env w = Some (Inr (), w')) \<and>
   (\<forall>e w'. main sdk env w = Some (Inl e, w') \<longrightarrow>
       top_level sdk env w = Some (Inr (), console_error (TopLevelError e) w')) \<and>
   (\<forall>pk kp w1.
       decodeSuiPrivateKey sdk (env ''MERGE_COIN_PRIVATE_KEY'') = Inr pk \<longrightarrow>
       fromSecretKey sdk pk = Inr kp \<longrightarrow>
       getOwnedTokens sdk (SuiClient SUI_RPC_URL) (toSuiAddress sdk kp) w = ([], w1) \<longrightarrow>
       main sdk env w = Some (Inr (), console_log NoOwnedTokens w1)) \<and>
   (\<forall>pk kp tokens w1 w2.
       decodeSuiPrivateKey sdk (env ''MERGE_COIN_PRIVATE_KEY'') = Inr pk \<longrightarrow>
       fromSecretKey sdk pk = Inr kp \<longrightarrow>
       getOwnedTokens sdk (SuiClient SUI_RPC_URL) (toSuiAddress sdk kp) w = (tokens, w1) \<longrightarrow>
       tokens \<noteq> [] \<longrightarrow>
       main_loop sdk pk tokens
           (console_log (FoundOwnedTokens (length tokens) (toSuiAddress sdk kp)) w1)
         = Some (Inr (), w2) \<longrightarrow>
       main sdk env w = Some (Inr (), w2)) \<and>
   (\<forall>pk kp before token rest w1 w2 e w3.
       decodeSuiPrivateKey sdk (env ''MERGE_COIN_PRIVATE_KEY'') = Inr pk \<longrightarrow>
       fromSecretKey sdk pk = Inr kp \<longrightarrow>
       getOwnedTokens sdk (SuiClient SUI_RPC_URL) (toSuiAddress sdk kp) w
         = (before @ token # rest, w1) \<longrightarrow>
       main_loop sdk pk before
           (console_log (FoundOwnedTokens (length (before @ token # rest)) (toSuiAddress sdk kp)) w1)
         = Some (Inr (), w2) \<longrightarrow>
       mergeCoinObjects sdk pk token 500 SUI_RPC_URL (console_log (TokenAddress token) w2)
         = Some (Inl e, w3) \<longrightarrow>
       main sdk env w = Some (Inl e, w3))"
proof (intro conjI allI impI)
  fix r assume "main sdk env w = Some r"
  then show "map_option (\<lambda>r. exit_code (fst r)) (top_level sdk env w) = Some 0"
    by (cases r) (auto simp: top_level_def exit_code_def split: sum.splits)
next
  assume "main sdk env w = None"
  then show "top_level sdk env w = None" by (simp add: top_level_def)
next
  fix w' assume "main sdk env w = Some (Inr (), w')"
  then show "top_level sdk env w = Some (Inr (), w')" by (simp add: top_level_def)
next
  fix e w' assume "main sdk env w = Some (Inl e, w')"
  then show "top_level sdk env w = Some (Inr (), console_error (TopLevelError e) w')"
    by (simp add: top_level_def)
next
  fix pk kp w1
  assume "decodeSuiPrivateKey sdk (env ''MERGE_COIN_PRIVATE_KEY'') = Inr pk"
    "fromSecretKey sdk pk = Inr kp"
    "getOwnedTokens sdk (SuiClient SUI_RPC_URL) (toSuiAddress sdk kp) w = ([], w1)"
  then show "main sdk env w = Some (Inr (), console_log NoOwnedTokens w1)"
    by (simp add: main_def Let_def)
next
  fix pk kp tokens w1 w2
  assume "decodeSuiPrivateKey sdk (env ''MERGE_COIN_PRIVATE_KEY'') = Inr pk"
    "fromSecretKey sdk pk = Inr kp"
    "getOwnedTokens sdk (SuiClient SUI_RPC_URL) (toSuiAddress sdk kp) w = (tokens, w1)"
    "tokens \<noteq> []"
    "main_loop sdk pk tokens
           (console_log (FoundOwnedTokens (length tokens) (toSuiAddress sdk kp)) w1)
         = Some (Inr (), w2)"
  then show "main sdk env w = Some (Inr (), w2)"
    by (simp add: main_def Let_def)
next
  fix pk kp before token rest w1 w2 e w3
  assume a: "decodeSuiPrivateKey sdk (env ''MERGE_COIN_PRIVATE_KEY'') = Inr pk"
    "fromSecretKey sdk pk = Inr kp"
    "getOwnedTokens sdk (SuiClient SUI_RPC_URL) (toSuiAddress sdk kp) w
         = (before @ token # rest, w1)"
    and b: "main_loop sdk pk before
           (console_log (FoundOwnedTokens (length (before @ token # rest)) (toSuiAddress sdk kp)) w1)
         = Some (Inr (), w2)"
    "mergeCoinObjects sdk pk token 500 SUI_RPC_URL (console_log (TokenAddress token) w2)
         = Some (Inl e, w3)"
  have "main_loop sdk pk (before @ token # rest)
           (console_log (FoundOwnedTokens (length (before @ token # rest)) (toSuiAddress sdk kp)) w1)
          = Some (Inl e, w3)"
    using b by (simp add: main_loop_append)
  with a show "main sdk env w = Some (Inl e, w3)"
    by (simp add: main_def Let_def)
qed

theorem driver_stops_at_first_failure_witness:
  "main rejecting_sdk env0 w0
     = Some (Inl (Error ''unavailable''),
         \<lparr> remote = 3,
           trace = [CallGetAllBalances ''0x6b'' (Inr two_tokens),
                    ConsoleLog (FoundOwnedTokens 2 ''0x6b''),
                    ConsoleLog (TokenAddress ''0x2::sui::SUI''),
                    CallGetCoins ''0x6b'' ''0x2::sui::SUI'' None 50 (Inr three_coins),
                    ConsoleLog (FoundObjects 3 ''0x2::sui::SUI''),
                    CallSignAndExecute
                      [MergeCoins ''0xc1'' [''0xc2''], MergeCoins ''0xc1'' [''0xc3'']]
                      (Ed25519Keypair ''6b'') (Inl (Error ''unavailable'')),
                    ConsoleError (ErrorMergingCoins (Error ''unavailable''))] \<rparr>) \<and>
   map_option (\<lambda>r. exit_code (fst r)) (top_level rejecting_sdk env0 w0) = Some 0 \<and>
   main (script_sdk (Inr []) refuse refuse) env0 w0
     = Some (Inr (),
         \<lparr> remote = 1,
           trace = [CallGetAllBalances ''0x6b'' (Inr []), ConsoleLog NoOwnedTokens] \<rparr>) \<and>
   map_option (\<lambda>r. exit_code (fst r)) (top_level (script_sdk (Inr []) refuse refuse) env0 w0)
     = Some 0 \<and>
   map_option fst (main (script_sdk (Inr two_tokens) refuse refuse) env0 w0) = Some (Inr ()) \<and>
   map_option (\<lambda>r. exit_code (fst r))
       (top_level (script_sdk (Inr two_tokens) refuse refuse) env0 w0) = Some 0 \<and>
   map_option fst (main (script_sdk (Inr two_tokens) (\<lambda>k. Inr three_coins) accept) env0 w0)
     = Some (Inr ()) \<and>
   map_option (\<lambda>r. exit_code (fst r))
       (top_level (script_sdk (Inr two_tokens) (\<lambda>k. Inr three_coins) accept) env0 w0) = Some 0"
proof -
  note ev = env0_def two_tokens_def getOwnedTokens_def
      client_getAllBalances_def mergeCoinObjects_def merge_try_def getAllTokenObjectIds_def
      fetch_loop_True fetch_loop_False client_getCoins_def merge_loop_submit merge_loop_done
      slice_def Let_def build_merge_eq merge_into_first_def three_coins_def coins_def w0_def
      refuse_def accept_def console_log_def console_error_def emit_def SUI_RPC_URL_def
  let ?w3 = "\<lparr> remote = 3,
           trace = [CallGetAllBalances ''0x6b'' (Inr two_tokens),
                    ConsoleLog (FoundOwnedTokens 2 ''0x6b''),
                    ConsoleLog (TokenAddress ''0x2::sui::SUI''),
                    CallGetCoins ''0x6b'' ''0x2::sui::SUI'' None 50 (Inr three_coins),
                    ConsoleLog (FoundObjects 3 ''0x2::sui::SUI''),
                    CallSignAndExecute
                      [MergeCoins ''0xc1'' [''0xc2''], MergeCoins ''0xc1'' [''0xc3'']]
                      (Ed25519Keypair ''6b'') (Inl (Error ''unavailable'')),
                    ConsoleError (ErrorMergingCoins (Error ''unavailable''))] \<rparr>"
  note status = driver_stops_at_first_failure[THEN conjunct1, rule_format]
  note none_found = driver_stops_at_first_failure
      [THEN conjunct2, THEN conjunct2, THEN conjunct2, THEN conjunct2, THEN conjunct1, rule_format]
  note failure = driver_stops_at_first_failure
      [THEN conjunct2, THEN conjunct2, THEN conjunct2, THEN conjunct2, THEN conjunct2,
       THEN conjunct2, rule_format]
  have key: "decodeSuiPrivateKey rejecting_sdk (env0 ''MERGE_COIN_PRIVATE_KEY'') = Inr ''6b''"
    "fromSecretKey rejecting_sdk ''6b'' = Inr (Ed25519Keypair ''6b'')"
    by (simp_all add: rejecting_sdk_def env0_def)
  have owned: "getOwnedTokens rejecting_sdk (SuiClient SUI_RPC_URL)
        (toSuiAddress rejecting_sdk (Ed25519Keypair ''6b'')) w0
      = ([] @ ''0x2::sui::SUI'' # [''0xa::navx::NAVX''],
         \<lparr> remote = 1, trace = [CallGetAllBalances ''0x6b'' (Inr two_tokens)] \<rparr>)"
    by (simp add: rejecting_sdk_def ev)
  have first: "main_loop rejecting_sdk ''6b'' []
        (console_log (FoundOwnedTokens (length ([] @ ''0x2::sui::SUI'' # [''0xa::navx::NAVX'']))
             (toSuiAddress rejecting_sdk (Ed25519Keypair ''6b'')))
           \<lparr> remote = 1, trace = [CallGetAllBalances ''0x6b'' (Inr two_tokens)] \<rparr>)
      = Some (Inr (), \<lparr> remote = 1, trace = [CallGetAllBalances ''0x6b'' (Inr two_tokens),
                    ConsoleLog (FoundOwnedTokens 2 ''0x6b'')] \<rparr>)"
    by (simp add: rejecting_sdk_def console_log_def emit_def)
  have fails: "mergeCoinObjects rejecting_sdk ''6b'' ''0x2::sui::SUI'' 500 SUI_RPC_URL
        (console_log (TokenAddress ''0x2::sui::SUI'')
           \<lparr> remote = 1, trace = [CallGetAllBalances ''0x6b'' (Inr two_tokens),
                    ConsoleLog (FoundOwnedTokens 2 ''0x6b'')] \<rparr>)
      = Some (Inl (Error ''unavailable''), ?w3)"
    by (simp add: rejecting_sdk_def ev)
  have a: "main rejecting_sdk env0 w0 = Some (Inl (Error ''unavailable''), ?w3)"
    by (rule failure[where sdk = rejecting_sdk and env = env0, OF key owned first fails])
  have a': "map_option (\<lambda>r. exit_code (fst r)) (top_level rejecting_sdk env0 w0) = Some 0"
    by (rule status[OF a])
  have e_owned: "getOwnedTokens (script_sdk (Inr []) refuse refuse) (SuiClient SUI_RPC_URL)
        (toSuiAddress (script_sdk (Inr []) refuse refuse) (Ed25519Keypair ''6b'')) w0
      = ([], \<lparr> remote = 1, trace = [CallGetAllBalances ''0x6b'' (Inr [])] \<rparr>)"
    by (simp add: ev)
  have e_key: "decodeSuiPrivateKey (script_sdk (Inr []) refuse refuse)
        (env0 ''MERGE_COIN_PRIVATE_KEY'') = Inr ''6b''"
    "fromSecretKey (script_sdk (Inr []) refuse refuse) ''6b'' = Inr (Ed25519Keypair ''6b'')"
    by (simp_all add: env0_def)
  have "main (script_sdk (Inr []) refuse refuse) env0 w0
     = Some (Inr (), console_log NoOwnedTokens
          \<lparr> remote = 1, trace = [CallGetAllBalances ''0x6b'' (Inr [])] \<rparr>)"
    by (rule none_found[where sdk = "script_sdk (Inr []) refuse refuse" and env = env0,
          OF e_key e_owned])
  then have b: "main (script_sdk (Inr []) refuse refuse) env0 w0
     = Some (Inr (),
         \<lparr> remote = 1,
           trace = [CallGetAllBalances ''0x6b'' (Inr []), ConsoleLog NoOwnedTokens] \<rparr>)"
    by (simp add: console_log_def emit_def)
  have b': "map_option (\<lambda>r. exit_code (fst r))
      (top_level (script_sdk (Inr []) refuse refuse) env0 w0) = Some 0"
    by (rule status[OF b])
  have c: "map_option fst (main (script_sdk (Inr two_tokens) refuse refuse) env0 w0) = Some (Inr ())"
    by (simp add: main_def ev)
  then obtain r where "main (script_sdk (Inr two_tokens) refuse refuse) env0 w0 = Some r"
    by auto
  then have c': "map_option (\<lambda>r. exit_code (fst r))
       (top_level (script_sdk (Inr two_tokens) refuse refuse) env0 w0) = Some 0"
    by (rule status)
  have d: "map_option fst (main (script_sdk (Inr two_tokens) (\<lambda>k. Inr three_coins) accept) env0 w0)
     = Some (Inr ())"
    by (simp add: main_def ev)
  then obtain r where
    "main (script_sdk (Inr two_tokens) (\<lambda>k. Inr three_coins) accept) env0 w0 = Some r"
    by auto
  then have d': "map_option (\<lambda>r. exit_code (fst r))
       (top_level (script_sdk (Inr two_tokens) (\<lambda>k. Inr three_coins) accept) env0 w0) = Some 0"
    by (rule status)
  from a a' b b' c c' d d' show ?thesis by (intro conjI)
qed

theorem driver_exit_status_counterexample:
  "map_option fst (main rejecting_sdk env0 w0) = Some (Inl (Error ''unavailable'')) \<and>
   map_option (\<lambda>r. exit_code (fst r)) (top_level rejecting_sdk env0 w0) = Some 0"
  by (simp add: top_level_def main_def exit_code_def rejecting_sdk_def env0_def two_tokens_def
      getOwnedTokens_def client_getAllBalances_def mergeCoinObjects_def merge_try_def
      getAllTokenObjectIds_def fetch_loop_True fetch_loop_False client_getCoins_def
      merge_loop_submit slice_def Let_def build_merge_eq merge_into_first_def three_coins_def
      coins_def w0_def refuse_def console_log_def console_error_def emit_def)

end
